theory Spec2Isabelle
  imports Main "HOL-Library.Word"
begin

unbundle bit_operations_syntax

section \<open>vncpasswd: a shallow embedding of \<^verbatim>\<open>unix/vncpasswd/vncpasswd.c\<close>\<close>

text \<open>
  The program is modelled function by function. Bytes are \<^typ>\<open>char\<close> (an 8-bit
  value); a C buffer is a \<^typ>\<open>char list\<close> holding every byte of the array, the
  terminator and whatever follows it included, so that what is left in memory after a
  \<^verbatim>\<open>memset\<close> can be read off. The strings of \<^verbatim>\<open>argv\<close> and of the environment are
  kept as the bytes before their terminator. C \<^verbatim>\<open>int\<close> flags are \<^typ>\<open>int\<close>: the
  program only ever stores the constants 0 and 1 in them.
\<close>

subsection \<open>The C string library on buffers\<close>

definition NUL :: char where
  "NUL = CHR 0x00"

definition NL :: char where
  "NL = CHR 0x0A"

text \<open>The string a buffer holds: the bytes before the first zero byte.\<close>

definition cstr :: "char list \<Rightarrow> char list" where
  "cstr buf = takeWhile (\<lambda>c. c \<noteq> NUL) buf"

definition strlen :: "char list \<Rightarrow> nat" where
  "strlen buf = length (cstr buf)"

text \<open>\<^verbatim>\<open>memset(buf + off, c, n)\<close>\<close>

definition memset :: "char list \<Rightarrow> nat \<Rightarrow> char \<Rightarrow> nat \<Rightarrow> char list" where
  "memset buf off c n = take off buf @ replicate n c @ drop (off + n) buf"

text \<open>\<^verbatim>\<open>memcpy(dst + off, src, n)\<close>\<close>

definition memcpy :: "char list \<Rightarrow> nat \<Rightarrow> char list \<Rightarrow> nat \<Rightarrow> char list" where
  "memcpy dst off src n = take off dst @ take n src @ drop (off + n) dst"

text \<open>\<^verbatim>\<open>strcpy(dst, src)\<close>: the string of \<open>src\<close> and its terminator.\<close>

definition strcpy :: "char list \<Rightarrow> char list \<Rightarrow> char list" where
  "strcpy dst src = cstr src @ [NUL] @ drop (strlen src + 1) dst"

text \<open>
  \<^verbatim>\<open>strchr(s, c)\<close> as the index of the first \<open>c\<close> in the string of \<open>s\<close>. The
  terminator belongs to the string: looking for the zero byte finds it.
\<close>

definition strchr :: "char list \<Rightarrow> char \<Rightarrow> nat option" where
  "strchr s c =
     (let n = length (takeWhile (\<lambda>x. x \<noteq> c) (cstr s))
      in if n < strlen s \<or> c = NUL then Some n else None)"

text \<open>
  \<^verbatim>\<open>snprintf(buf, size, fmt, ...)\<close>, given the text \<open>s\<close> the format expands to: at
  most \<open>sz - 1\<close> bytes of it are stored, then the terminator.
\<close>

definition snprintf :: "char list \<Rightarrow> nat \<Rightarrow> char list \<Rightarrow> char list" where
  "snprintf buf sz s =
     (let t = take (sz - 1) s in t @ [NUL] @ drop (length t + 1) buf)"

text \<open>The decimal digits of a number, most significant first.\<close>

fun dec :: "nat \<Rightarrow> char list" where
  "dec n = (if n < 10 then [char_of (48 + n)]
            else dec (n div 10) @ [char_of (48 + n mod 10)])"

declare dec.simps [simp del]

text \<open>The expansion of the format \<^verbatim>\<open>%08u\<close>: at least 8 digits, zeros in front.\<close>

definition fmt_08u :: "32 word \<Rightarrow> char list" where
  "fmt_08u x =
     (let d = dec (unat x) in replicate (8 - length d) (CHR ''0'') @ d)"

text \<open>The expansion of \<^verbatim>\<open>%.*s\<close> with precision \<open>n\<close> on the bytes at \<open>buf + off\<close>.\<close>

definition fmt_prec_s :: "nat \<Rightarrow> char list \<Rightarrow> nat \<Rightarrow> char list" where
  "fmt_prec_s n buf off = cstr (take n (drop off buf))"

subsection \<open>The world outside the program\<close>

text \<open>
  Every line the program writes to \<^verbatim>\<open>stderr\<close> is one constructor, in the order of the
  source:
  \<^item> \<open>MsgUnableOpenDisplay d\<close>: \<^verbatim>\<open>unable to open display "d"\<close>
  \<^item> \<open>MsgNoOTPSupport d\<close>: \<^verbatim>\<open>The X display "d" does not support VNC one-time passwords\<close>
  \<^item> \<open>MsgPerror p e\<close>: \<^verbatim>\<open>perror(p)\<close>
  \<^item> \<open>MsgNoRandom\<close>: \<^verbatim>\<open>Could not read random number from /dev/urandom\<close>
  \<^item> \<open>MsgFullOTP s\<close>: \<^verbatim>\<open>Full control one-time password: s\<close>
  \<^item> \<open>MsgViewOTP s\<close>: \<^verbatim>\<open>View-only one-time password: s\<close>
  \<^item> \<open>MsgMissingUser\<close>: \<^verbatim>\<open>missing the username!\<close>
  \<^item> \<open>MsgUserTooLarge\<close>: \<^verbatim>\<open>username is too large\<close>
  \<^item> \<open>MsgNoACLSupport d\<close>: \<^verbatim>\<open>The X server "d" does not support VNC user access control lists\<close>
  \<^item> \<open>MsgFIncompatO\<close>: \<^verbatim>\<open>Error: -f is incompatible with -o\<close>
  \<^item> \<open>MsgTIncompatO\<close>: \<^verbatim>\<open>Error: -t is incompatible with -o\<close>
  \<^item> \<open>MsgARIncompatO\<close>: \<^verbatim>\<open>Error: -a and -r are incompatible with -o\<close>
  \<^item> \<open>MsgFIncompatAR\<close>: \<^verbatim>\<open>Error: -f is incompatible with -a and -r\<close>
  \<^item> \<open>MsgTIncompatAR\<close>: \<^verbatim>\<open>Error: -t is incompatible with -a and -r\<close>
  \<^item> \<open>MsgOIncompatAR\<close>: \<^verbatim>\<open>Error: -o is incompatible with -a and -r\<close>
  \<^item> \<open>MsgFileNameTooLong\<close>: \<^verbatim>\<open>Error: file name too long\<close>
  \<^item> \<open>MsgFilenameWithF\<close>: \<^verbatim>\<open>Error: cannot specify filename with -f\<close>
  \<^item> \<open>MsgUsingFile f\<close>: \<^verbatim>\<open>Using password file f\<close>
  \<^item> \<open>MsgCouldNotRead\<close>: \<^verbatim>\<open>Could not read password\<close>
  \<^item> \<open>MsgEnterViewOnly\<close>: \<^verbatim>\<open>Enter the view-only password\<close>
  \<^item> \<open>MsgAskViewOnly\<close>: \<^verbatim>\<open>Would you like to enter a view-only password (y/n)? \<close>
  \<^item> \<open>MsgCannotWrite f\<close>: \<^verbatim>\<open>Cannot write password file f\<close>
  \<^item> \<open>MsgUsage p\<close>: the seven lines of \<^verbatim>\<open>usage()\<close> for program name \<open>p\<close>
  \<^item> \<open>MsgNoEnv n\<close>: \<^verbatim>\<open>Error: no n environment variable\<close>
  \<^item> \<open>MsgEnvTooLong n\<close>: \<^verbatim>\<open>Error: n environment variable string too long\<close>
  \<^item> \<open>MsgLstatFailed d e\<close>: \<^verbatim>\<open>lstat() failed for d: strerror(e)\<close>
  \<^item> \<open>MsgDirCreating d\<close>: \<^verbatim>\<open>VNC directory d does not exist, creating.\<close>
  \<^item> \<open>MsgMkdirError d e\<close>: \<^verbatim>\<open>Error creating directory d: strerror(e)\<close>
  \<^item> \<open>MsgLstatError d e\<close>: \<^verbatim>\<open>Error in lstat() for d: strerror(e)\<close>
  \<^item> \<open>MsgNotDir d\<close>: \<^verbatim>\<open>Error: d is not a directory\<close>
  \<^item> \<open>MsgBadOwner d\<close>: \<^verbatim>\<open>Error: bad ownership on d\<close>
  \<^item> \<open>MsgBadModes d\<close>: \<^verbatim>\<open>Error: bad access modes on d\<close>
  \<^item> \<open>MsgTruncated\<close>: \<^verbatim>\<open>Warning: password truncated to the length of 8.\<close>
  \<^item> \<open>MsgNotTty\<close>: \<^verbatim>\<open>Can't get password: not a tty?\<close>
  \<^item> \<open>MsgTooShort\<close>: \<^verbatim>\<open>Password too short\<close>
  \<^item> \<open>MsgMismatch\<close>: \<^verbatim>\<open>Passwords do not match. Please try again.\<close>
\<close>

datatype errno = ENOENT | EACCES | EEXIST | ELOOP | ENOTDIR | ENAMETOOLONG | EIO

datatype msg =
    MsgUnableOpenDisplay string
  | MsgNoOTPSupport string
  | MsgPerror string errno
  | MsgNoRandom
  | MsgFullOTP "char list"
  | MsgViewOTP "char list"
  | MsgMissingUser
  | MsgUserTooLarge
  | MsgNoACLSupport string
  | MsgFIncompatO
  | MsgTIncompatO
  | MsgARIncompatO
  | MsgFIncompatAR
  | MsgTIncompatAR
  | MsgOIncompatAR
  | MsgFileNameTooLong
  | MsgFilenameWithF
  | MsgUsingFile string
  | MsgCouldNotRead
  | MsgEnterViewOnly
  | MsgAskViewOnly
  | MsgCannotWrite string
  | MsgUsage string
  | MsgNoEnv string
  | MsgEnvTooLong string
  | MsgLstatFailed string errno
  | MsgDirCreating string
  | MsgMkdirError string errno
  | MsgLstatError string errno
  | MsgNotDir string
  | MsgBadOwner string
  | MsgBadModes string
  | MsgTruncated
  | MsgNotTty
  | MsgTooShort
  | MsgMismatch

text \<open>What \<^verbatim>\<open>lstat\<close> reports of a path: the node at the path itself, a symbolic link
  as a link.\<close>

record stat =
  st_mode :: "32 word"
  st_uid :: nat

text \<open>
  The file system as the program sees it: the nodes by path, the paths whose inspection
  fails and with which error, and the paths where \<^verbatim>\<open>mkdir\<close> fails.
\<close>

record filesys =
  nodes :: "string \<Rightarrow> stat option"
  lstat_err :: "string \<Rightarrow> errno option"
  mkdir_err :: "string \<Rightarrow> errno option"

text \<open>
  The display server: which display names can be opened, the atoms that exist, the
  properties of the root window by atom name, and every \<^verbatim>\<open>XOpenDisplay\<close> call made.
\<close>

record xserver =
  x_reachable :: "string option \<Rightarrow> bool"
  x_atoms :: "string list"
  x_props :: "string \<Rightarrow> char list option"
  x_opened :: "string option list"

text \<open>
  The whole environment of one run. \<open>tty\<close> lists what the successive \<^verbatim>\<open>getpass\<close> calls
  obtain (\<open>None\<close>: the call returns \<^verbatim>\<open>NULL\<close>; so does a call when the list is
  used up), \<open>gp_buf\<close> is the static buffer \<^verbatim>\<open>getpass\<close> returns a pointer to,
  \<open>junk\<close> gives the bytes an uninitialised array starts with, \<open>urandom\<close> the 4-byte
  values \<^verbatim>\<open>/dev/urandom\<close> still delivers, \<open>rand_fn\<close> the values of the successive
  \<^verbatim>\<open>random()\<close> calls after seeding, \<open>store_ok\<close> what \<^verbatim>\<open>vncEncryptAndStorePasswd2\<close>
  (declared in \<^verbatim>\<open>vncauth.h\<close>) answers, and \<open>stored\<close> the calls it received: the two
  plaintext strings and the file name.
\<close>

record world =
  envp :: "string \<Rightarrow> string option"
  stdin :: "char list"
  tty :: "string option list"
  gp_buf :: "char list"
  stderr :: "msg list"
  junk :: "nat \<Rightarrow> char"
  fs :: filesys
  ruid :: nat
  euid :: nat
  umask :: "32 word"
  xs :: xserver
  urandom_open :: "errno option"
  urandom :: "32 word list"
  rand_fn :: "nat \<Rightarrow> 32 word"
  rand_calls :: nat
  store_ok :: bool
  stored :: "(char list \<times> char list option \<times> string) list"

definition fprintf :: "msg \<Rightarrow> world \<Rightarrow> world" where
  "fprintf m w = w\<lparr>stderr := stderr w @ [m]\<rparr>"

text \<open>An array of \<open>n\<close> bytes that has not been written yet.\<close>

definition uninit :: "world \<Rightarrow> nat \<Rightarrow> char list" where
  "uninit w n = map (junk w) [0..<n]"

subsection \<open>Xlib\<close>

text \<open>\<^verbatim>\<open>XDisplayName(d)\<close>: the name \<^verbatim>\<open>XOpenDisplay(d)\<close> would use.\<close>

definition XDisplayName :: "world \<Rightarrow> string option \<Rightarrow> string" where
  "XDisplayName w d =
     (case d of Some s \<Rightarrow> s
      | None \<Rightarrow> (case envp w ''DISPLAY'' of Some s \<Rightarrow> s | None \<Rightarrow> []))"

text \<open>\<^verbatim>\<open>XOpenDisplay(d)\<close>: whether a connection was obtained; the call is recorded.\<close>

definition XOpenDisplay :: "string option \<Rightarrow> world \<Rightarrow> bool \<times> world" where
  "XOpenDisplay d w =
     (x_reachable (xs w) d, w\<lparr>xs := (xs w)\<lparr>x_opened := x_opened (xs w) @ [d]\<rparr>\<rparr>)"

text \<open>\<^verbatim>\<open>XInternAtom(dpy, name, True)\<close>: only an atom that exists is returned.\<close>

definition XInternAtom :: "world \<Rightarrow> string \<Rightarrow> string option" where
  "XInternAtom w name = (if name \<in> set (x_atoms (xs w)) then Some name else None)"

text \<open>\<^verbatim>\<open>XChangeProperty(dpy, root, prop, XA_STRING, 8, PropModeReplace, bytes, len)\<close>\<close>

definition XChangeProperty :: "string \<Rightarrow> char list \<Rightarrow> nat \<Rightarrow> world \<Rightarrow> world" where
  "XChangeProperty prop bytes len w =
     w\<lparr>xs := (xs w)\<lparr>x_props := (x_props (xs w))(prop \<mapsto> take len bytes)\<rparr>\<rparr>"

subsection \<open>The global variables\<close>

record globals =
  alsoView :: int
  otp :: int
  otpClear :: int
  displayname :: "string option"
  addUser :: int
  userList :: int
  user :: "string option"

definition globals0 :: globals where
  "globals0 = \<lparr>alsoView = 0, otp = 0, otpClear = 0, displayname = None,
               addUser = 0, userList = 0, user = None\<rparr>"

definition MAXPWLEN :: nat where
  "MAXPWLEN = 8"

definition MAXUSERLEN :: nat where
  "MAXUSERLEN = 63"

subsection \<open>\<^verbatim>\<open>DoUserList\<close>\<close>

definition DoUserList :: "globals \<Rightarrow> world \<Rightarrow> int \<times> world" where
  "DoUserList g w =
     (case user g of
        None \<Rightarrow> (1, fprintf MsgMissingUser w)
      | Some u \<Rightarrow>
          let len = length u in
          if len = 0 then (1, fprintf MsgMissingUser w)
          else if len > MAXUSERLEN then (1, fprintf MsgUserTooLarge w)
          else
            (case XOpenDisplay (displayname g) w of
               (False, w1) \<Rightarrow>
                 (1, fprintf (MsgUnableOpenDisplay (XDisplayName w1 (displayname g))) w1)
             | (True, w1) \<Rightarrow>
                 (case XInternAtom w1 ''VNC_ACL'' of
                    None \<Rightarrow>
                      (1, fprintf (MsgNoACLSupport (XDisplayName w1 (displayname g))) w1)
                  | Some prop \<Rightarrow>
                      let bytes = uninit w1 (MAXUSERLEN + 1);
                          bytes = bytes[0 := char_of (addUser g OR
                                    (if alsoView g \<noteq> 0 then 0x10 else 0x00))];
                          bytes = memcpy bytes 1 u len
                      in (0, XChangeProperty prop bytes (len + 1) w1))))"

subsection \<open>\<^verbatim>\<open>DoOTP\<close>\<close>

text \<open>The two character arrays of \<^verbatim>\<open>DoOTP\<close>, as they are when it returns.\<close>

record otp_frame =
  buf :: "char list"
  bytes :: "char list"

text \<open>\<^verbatim>\<open>read(fd, &x, sizeof(x))\<close> on \<^verbatim>\<open>/dev/urandom\<close>: the next value, if a whole one
  is delivered.\<close>

definition read_urandom :: "world \<Rightarrow> 32 word option \<times> world" where
  "read_urandom w =
     (case urandom w of [] \<Rightarrow> (None, w)
      | x # rest \<Rightarrow> (Some x, w\<lparr>urandom := rest\<rparr>))"

text \<open>\<^verbatim>\<open>random()\<close>: a value between 0 and \<open>2^31 - 1\<close>, stored in an \<^verbatim>\<open>unsigned int\<close>.\<close>

definition random :: "world \<Rightarrow> 32 word \<times> world" where
  "random w =
     (rand_fn w (rand_calls w) AND 0x7FFFFFFF, w\<lparr>rand_calls := rand_calls w + 1\<rparr>)"

text \<open>
  The drawing of \<open>full\<close> and \<open>view\<close>, for either setting of the build-time macro
  \<^verbatim>\<open>UseDevUrandom\<close>; \<open>None\<close> is the \<^verbatim>\<open>return(1)\<close> of the branch.
\<close>

definition draw_otp :: "bool \<Rightarrow> globals \<Rightarrow> world \<Rightarrow> (32 word \<times> 32 word) option \<times> world" where
  "draw_otp UseDevUrandom g w =
     (if UseDevUrandom then
        (case urandom_open w of
           Some e \<Rightarrow> (None, fprintf (MsgPerror ''/dev/urandom'' e) w)
         | None \<Rightarrow>
             (case read_urandom w of
                (None, w1) \<Rightarrow> (None, fprintf MsgNoRandom w1)
              | (Some full, w1) \<Rightarrow>
                  if alsoView g \<noteq> 0 then
                    (case read_urandom w1 of
                       (None, w2) \<Rightarrow> (None, fprintf MsgNoRandom w2)
                     | (Some view, w2) \<Rightarrow> (Some (full, view), w2))
                  else (Some (full, 0), w1)))
      else
        (case random w of
           (full, w1) \<Rightarrow>
             if alsoView g \<noteq> 0 then
               (case random w1 of (view, w2) \<Rightarrow> (Some (full, view), w2))
             else (Some (full, 0), w1)))"

text \<open>
  The formatting of the drawn values into \<open>buf\<close> and \<open>bytes\<close> (lines 124 to 135),
  giving the frame, the length and the world with the two lines printed.
\<close>

definition format_otp :: "globals \<Rightarrow> 32 word \<Rightarrow> 32 word \<Rightarrow> otp_frame \<Rightarrow> world
    \<Rightarrow> otp_frame \<times> nat \<times> world" where
  "format_otp g full view fr w =
     (let b1 = snprintf (buf fr) (MAXPWLEN + 1) (fmt_08u full);
          y1 = memcpy (bytes fr) 0 b1 MAXPWLEN;
          w1 = fprintf (MsgFullOTP (fmt_prec_s MAXPWLEN y1 0)) w
      in if alsoView g \<noteq> 0 then
           (let b2 = snprintf b1 (MAXPWLEN + 1) (fmt_08u view);
                y2 = memcpy y1 MAXPWLEN b2 MAXPWLEN;
                w2 = fprintf (MsgViewOTP (fmt_prec_s MAXPWLEN y2 MAXPWLEN)) w1
            in (\<lparr>buf = b2, bytes = y2\<rparr>, MAXPWLEN * 2, w2))
         else (\<lparr>buf = b1, bytes = y1\<rparr>, MAXPWLEN, w1))"

definition DoOTP :: "bool \<Rightarrow> globals \<Rightarrow> world \<Rightarrow> int \<times> otp_frame \<times> world" where
  "DoOTP UseDevUrandom g w =
     (let fr = \<lparr>buf = uninit w (MAXPWLEN + 1), bytes = uninit w (MAXPWLEN * 2)\<rparr> in
      case XOpenDisplay (displayname g) w of
        (False, w1) \<Rightarrow>
          (1, fr, fprintf (MsgUnableOpenDisplay (XDisplayName w1 (displayname g))) w1)
      | (True, w1) \<Rightarrow>
          (case XInternAtom w1 ''VNC_OTP'' of
             None \<Rightarrow>
               (1, fr, fprintf (MsgNoOTPSupport (XDisplayName w1 (displayname g))) w1)
           | Some prop \<Rightarrow>
               (case (if otpClear g \<noteq> 0 then (Some (fr, 0), w1)
                      else (case draw_otp UseDevUrandom g w1 of
                              (None, w2) \<Rightarrow> (None, w2)
                            | (Some (full, view), w2) \<Rightarrow>
                                (case format_otp g full view fr w2 of
                                   (fr', len, w3) \<Rightarrow> (Some (fr', len), w3)))) of
                  (None, w4) \<Rightarrow> (1, fr, w4)
                | (Some (fr', len), w4) \<Rightarrow>
                    let w5 = XChangeProperty prop (bytes fr') len w4;
                        fr'' = fr'\<lparr>bytes := memset (bytes fr') 0 NUL (MAXPWLEN * 2)\<rparr>
                    in (0, fr'', w5))))"

subsection \<open>System calls\<close>

datatype outcome = Exit int | Segfault

text \<open>The constants of \<^verbatim>\<open><sys/stat.h>\<close>, in octal 0170000, 0040000, 0700, 070, 07.\<close>

definition S_IFMT :: "32 word" where
  "S_IFMT = 0xF000"

definition S_IFDIR :: "32 word" where
  "S_IFDIR = 0x4000"

definition S_IRWXU :: "32 word" where
  "S_IRWXU = 0x1C0"

definition S_IRWXG :: "32 word" where
  "S_IRWXG = 0x38"

definition S_IRWXO :: "32 word" where
  "S_IRWXO = 0x7"

definition S_ISDIR :: "32 word \<Rightarrow> bool" where
  "S_ISDIR m = (m AND S_IFMT = S_IFDIR)"

text \<open>\<^verbatim>\<open>lstat(path, &stbuf)\<close>: the error, or what is at the path itself.\<close>

definition lstat :: "world \<Rightarrow> string \<Rightarrow> errno + stat" where
  "lstat w path =
     (case lstat_err (fs w) path of
        Some e \<Rightarrow> Inl e
      | None \<Rightarrow> (case nodes (fs w) path of None \<Rightarrow> Inl ENOENT | Some st \<Rightarrow> Inr st))"

text \<open>
  \<^verbatim>\<open>mkdir(path, mode)\<close>: the new directory belongs to the effective user and gets the
  permission bits the umask leaves of \<open>mode\<close>.
\<close>

definition mkdir :: "string \<Rightarrow> 32 word \<Rightarrow> world \<Rightarrow> errno option \<times> world" where
  "mkdir path mode w =
     (case mkdir_err (fs w) path of
        Some e \<Rightarrow> (Some e, w)
      | None \<Rightarrow>
          (case nodes (fs w) path of
             Some st \<Rightarrow> (Some EEXIST, w)
           | None \<Rightarrow>
               (None, w\<lparr>fs := (fs w)\<lparr>nodes := (nodes (fs w))(path \<mapsto>
                  \<lparr>st_mode = S_IFDIR OR (mode AND NOT (umask w)), st_uid = euid w\<rparr>)\<rparr>\<rparr>)))"

text \<open>\<^verbatim>\<open>getuid()\<close>: the real user ID of the process.\<close>

definition getuid :: "world \<Rightarrow> nat" where
  "getuid w = ruid w"

text \<open>
  \<^verbatim>\<open>fgets(buf, n, stdin)\<close> for \<open>n \<ge> 2\<close>: up to \<open>n - 1\<close> bytes, the newline that ends
  the line included, then the terminator; \<open>None\<close> (with the array untouched) when the
  stream has ended.
\<close>

fun fgets_take :: "nat \<Rightarrow> char list \<Rightarrow> char list" where
  "fgets_take 0 s = []"
| "fgets_take (Suc k) [] = []"
| "fgets_take (Suc k) (c # s) = (if c = NL then [c] else c # fgets_take k s)"

definition fgets :: "char list \<Rightarrow> nat \<Rightarrow> world \<Rightarrow> char list option \<times> world" where
  "fgets b n w =
     (let chunk = fgets_take (n - 1) (stdin w) in
      if chunk = [] then (None, w)
      else (Some (chunk @ [NUL] @ drop (length chunk + 1) b),
            w\<lparr>stdin := drop (length chunk) (stdin w)\<rparr>))"

text \<open>
  \<^verbatim>\<open>getpass(prompt)\<close>: \<open>False\<close> is \<^verbatim>\<open>NULL\<close>, \<open>True\<close> the pointer to the static buffer,
  which then holds the line typed and its terminator. The prompt goes to the terminal
  and is not recorded.
\<close>

definition getpass :: "world \<Rightarrow> bool \<times> world" where
  "getpass w =
     (case tty w of
        [] \<Rightarrow> (False, w)
      | None # rest \<Rightarrow> (False, w\<lparr>tty := rest\<rparr>)
      | Some s # rest \<Rightarrow>
          (True, w\<lparr>tty := rest, gp_buf := s @ [NUL] @ drop (length s + 1) (gp_buf w)\<rparr>))"

text \<open>\<^verbatim>\<open>vncEncryptAndStorePasswd2(passwd1, passwd2, fname)\<close>: the call is recorded with
  the strings it is given.\<close>

definition vncEncryptAndStorePasswd2 ::
    "char list \<Rightarrow> char list option \<Rightarrow> string \<Rightarrow> world \<Rightarrow> bool \<times> world" where
  "vncEncryptAndStorePasswd2 passwd1 passwd2 fname w =
     (store_ok w, w\<lparr>stored := stored w @ [(cstr passwd1, map_option cstr passwd2, fname)]\<rparr>)"

subsection \<open>\<^verbatim>\<open>usage\<close> and \<^verbatim>\<open>getenv_safe\<close>\<close>

definition usage :: "string \<Rightarrow> world \<Rightarrow> outcome \<times> world" where
  "usage argv0 w = (Exit 1, fprintf (MsgUsage argv0) w)"

definition getenv_safe :: "string \<Rightarrow> nat \<Rightarrow> world \<Rightarrow> (outcome \<times> world) + string" where
  "getenv_safe name maxlen w =
     (case envp w name of
        None \<Rightarrow> Inl (Exit 1, fprintf (MsgNoEnv name) w)
      | Some v \<Rightarrow>
          if length v > maxlen then Inl (Exit 1, fprintf (MsgEnvTooLong name) w)
          else Inr v)"

subsection \<open>\<^verbatim>\<open>mkdir_and_check\<close>\<close>

text \<open>\<open>Inl\<close> is an \<^verbatim>\<open>exit(1)\<close>, \<open>Inr\<close> the return to the caller.\<close>

definition mkdir_and_check :: "string \<Rightarrow> int \<Rightarrow> world \<Rightarrow> (outcome \<times> world) + world" where
  "mkdir_and_check dirname be_strict w =
     (case (case lstat w dirname of
              Inr st \<Rightarrow> Inr w
            | Inl e \<Rightarrow>
                if e \<noteq> ENOENT then Inl (Exit 1, fprintf (MsgLstatFailed dirname e) w)
                else
                  (let w1 = fprintf (MsgDirCreating dirname) w in
                   case mkdir dirname S_IRWXU w1 of
                     (Some e', w2) \<Rightarrow> Inl (Exit 1, fprintf (MsgMkdirError dirname e') w2)
                   | (None, w2) \<Rightarrow> Inr w2)) of
        Inl x \<Rightarrow> Inl x
      | Inr w3 \<Rightarrow>
          (case lstat w3 dirname of
             Inl e \<Rightarrow> Inl (Exit 1, fprintf (MsgLstatError dirname e) w3)
           | Inr stbuf \<Rightarrow>
               if \<not> S_ISDIR (st_mode stbuf) then
                 Inl (Exit 1, fprintf (MsgNotDir dirname) w3)
               else if st_uid stbuf \<noteq> getuid w3 then
                 Inl (Exit 1, fprintf (MsgBadOwner dirname) w3)
               else if be_strict \<noteq> 0 \<and> (S_IRWXG OR S_IRWXO) AND st_mode stbuf \<noteq> 0 then
                 Inl (Exit 1, fprintf (MsgBadModes dirname) w3)
               else Inr w3))"

subsection \<open>\<^verbatim>\<open>read_password\<close>\<close>

text \<open>
  The result is the value returned, the caller's 9-byte array \<open>result\<close>, the local array
  \<open>passwd\<close> as the function leaves it, and the world.
\<close>

definition read_password :: "char list \<Rightarrow> world \<Rightarrow> int \<times> char list \<times> char list \<times> world" where
  "read_password result w =
     (let passwd = uninit w 256 in
      case fgets passwd 256 w of
        (None, w1) \<Rightarrow> (0, result, passwd, w1)
      | (Some passwd, w1) \<Rightarrow>
          let passwd = (case strchr passwd NL of
                          None \<Rightarrow> passwd
                        | Some ptr \<Rightarrow> passwd[ptr := NUL]);
              (passwd, w2) =
                 (if strlen passwd > 8 then
                    (memset passwd 8 NUL (strlen passwd - 8), fprintf MsgTruncated w1)
                  else (passwd, w1));
              result = strcpy result passwd;
              passwd = memset passwd 0 NUL (strlen passwd)
          in (1, result, passwd, w2))"

subsection \<open>\<^verbatim>\<open>ask_password\<close>\<close>

text \<open>
  The pointer \<open>passwd\<close> of the source always points to the static buffer of
  \<^verbatim>\<open>getpass\<close>, the field \<open>gp_buf\<close>. The loop is the recursion; it ends because every
  round uses up two answers of the terminal. The result is the value returned (or the
  crash of \<^verbatim>\<open>strlen(NULL)\<close> when the second \<^verbatim>\<open>getpass\<close> fails), the caller's array
  \<open>result\<close>, the local array \<open>passwd_copy\<close> as the function leaves it, and the world.
\<close>

datatype 'a ctl = Ret 'a | Crash

function ask_password_loop ::
    "char list \<Rightarrow> char list \<Rightarrow> world \<Rightarrow> int ctl \<times> char list \<times> char list \<times> world" where
  "ask_password_loop result passwd_copy w =
     (case getpass w of
        (False, w1) \<Rightarrow> (Ret 0, result, passwd_copy, fprintf MsgNotTty w1)
      | (True, w1) \<Rightarrow>
          if strlen (gp_buf w1) < 6 then
            (Ret 0, result, passwd_copy, fprintf MsgTooShort w1)
          else
            let w2 = (if strlen (gp_buf w1) > 8 then
                        fprintf MsgTruncated
                          (w1\<lparr>gp_buf := memset (gp_buf w1) 8 NUL (strlen (gp_buf w1) - 8)\<rparr>)
                      else w1);
                passwd_copy = strcpy passwd_copy (gp_buf w2)
            in
              (case getpass w2 of
                 (False, w3) \<Rightarrow> (Crash, result, passwd_copy, w3)
               | (True, w3) \<Rightarrow>
                   let w4 = (if strlen (gp_buf w3) > 8 then
                               w3\<lparr>gp_buf := memset (gp_buf w3) 8 NUL (strlen (gp_buf w3) - 8)\<rparr>
                             else w3)
                   in
                     if cstr (gp_buf w4) = cstr passwd_copy then
                       (Ret 1,
                        strcpy result (gp_buf w4),
                        memset passwd_copy 0 NUL (strlen passwd_copy),
                        w4\<lparr>gp_buf := memset (gp_buf w4) 0 NUL (strlen (gp_buf w4))\<rparr>)
                     else ask_password_loop result passwd_copy (fprintf MsgMismatch w4)))"
  by pat_completeness auto

termination
proof (relation "measure (\<lambda>(r, p, w). length (tty w))", goal_cases)
  case 1
  show ?case by simp
next
  case (2 result passwd_copy w x1 x2 w2 pc y1 y2 w4)
  have shorter: "length (tty v') < length (tty v)" if "getpass v = (True, v')" for v v'
    using that by (auto simp: getpass_def split: list.splits option.splits)
  have a: "length (tty x2) < length (tty w)"
    using 2 shorter [of w x2] by (cases x1) auto
  have b: "tty w2 = tty x2"
    using 2 by (auto simp: fprintf_def)
  have c: "length (tty y2) < length (tty w2)"
    using 2 shorter [of w2 y2] by (cases y1) auto
  have d: "tty w4 = tty y2"
    using 2 by auto
  show ?case using a b c d by (simp add: fprintf_def)
qed

declare ask_password_loop.simps [simp del]

definition ask_password :: "char list \<Rightarrow> world \<Rightarrow> int ctl \<times> char list \<times> char list \<times> world" where
  "ask_password result w = ask_password_loop result (uninit w 9) w"


subsection \<open>\<^verbatim>\<open>main\<close>\<close>

text \<open>The local variables of \<^verbatim>\<open>main\<close> that the option loop sets.\<close>

record mlocals =
  read_from_stdin :: int
  make_directory :: int
  check_strictly :: int
  passwdDir :: string
  passwdFile :: string

text \<open>\<^verbatim>\<open>s[n]\<close> for \<open>n\<close> up to the length of the string: its last index holds the
  terminator.\<close>

definition char_at :: "string \<Rightarrow> nat \<Rightarrow> char" where
  "char_at s n = (if n < length s then s ! n else NUL)"

text \<open>
  The option loop of lines 215 to 283, on the words \<^verbatim>\<open>argv[i]\<close>, \<^verbatim>\<open>argv[i+1]\<close>, ...
  still to be read. \<open>Inl\<close> is an exit inside the loop; \<open>Inr\<close> gives the words from
  \<^verbatim>\<open>argv[i]\<close> on when the loop is left.
\<close>

fun parse_args :: "string \<Rightarrow> string list \<Rightarrow> globals \<Rightarrow> mlocals \<Rightarrow> world
    \<Rightarrow> (outcome \<times> world) + (string list \<times> globals \<times> mlocals)" where
  "parse_args argv0 [] g l w = Inr ([], g, l)"
| "parse_args argv0 (a # rest) g l w =
     (if char_at a 0 \<noteq> CHR ''-'' then Inr (a # rest, g, l)
      else if char_at a 1 = CHR ''d'' then
        (if a \<noteq> ''-display'' then Inl (usage argv0 w)
         else (case rest of
                 [] \<Rightarrow> Inl (usage argv0 w)
               | v # rest' \<Rightarrow> parse_args argv0 rest' (g\<lparr>displayname := Some v\<rparr>) l w))
      else if char_at a 1 = CHR ''c'' then
        parse_args argv0 rest (g\<lparr>otp := 1, otpClear := 1\<rparr>) (l\<lparr>make_directory := 0\<rparr>) w
      else if char_at a 1 = CHR ''o'' then
        parse_args argv0 rest (g\<lparr>otp := 1\<rparr>) (l\<lparr>make_directory := 0\<rparr>) w
      else if char_at a 1 = CHR ''a'' then
        (case rest of
           [] \<Rightarrow> Inl (usage argv0 w)
         | v # rest' \<Rightarrow>
             parse_args argv0 rest' (g\<lparr>user := Some v, userList := 1, addUser := 1\<rparr>)
               (l\<lparr>make_directory := 0\<rparr>) w)
      else if char_at a 1 = CHR ''r'' then
        (case rest of
           [] \<Rightarrow> Inl (usage argv0 w)
         | v # rest' \<Rightarrow>
             parse_args argv0 rest' (g\<lparr>user := Some v, userList := 1, addUser := 0\<rparr>)
               (l\<lparr>make_directory := 0\<rparr>) w)
      else if char_at a 1 = CHR ''f'' then
        parse_args argv0 rest g
          (l\<lparr>passwdFile := ''-'', read_from_stdin := 1, make_directory := 0,
             check_strictly := 0\<rparr>) w
      else if char_at a 1 = CHR ''t'' then
        (case getenv_safe ''USER'' 32 w of
           Inl x \<Rightarrow> Inl x
         | Inr u \<Rightarrow>
             parse_args argv0 rest g
               (l\<lparr>passwdDir := ''/tmp/'' @ u @ ''-vnc'',
                  passwdFile := (''/tmp/'' @ u @ ''-vnc'') @ ''/passwd'',
                  read_from_stdin := 0, make_directory := 1, check_strictly := 1\<rparr>) w)
      else if char_at a 1 = CHR ''v'' then
        parse_args argv0 rest (g\<lparr>alsoView := 1\<rparr>) l w
      else Inl (usage argv0 w))"

text \<open>Lines 285 to 302: \<^verbatim>\<open>if (otp) { ... exit(DoOTP()); }\<close>\<close>

definition main_otp :: "bool \<Rightarrow> globals \<Rightarrow> mlocals \<Rightarrow> world \<Rightarrow> outcome \<times> world" where
  "main_otp UseDevUrandom g l w =
     (if read_from_stdin l \<noteq> 0 then (Exit 1, fprintf MsgFIncompatO w)
      else if take 4 (passwdDir l) = ''/tmp'' then (Exit 1, fprintf MsgTIncompatO w)
      else if userList g \<noteq> 0 then (Exit 1, fprintf MsgARIncompatO w)
      else (case DoOTP UseDevUrandom g w of (rc, fr, w') \<Rightarrow> (Exit rc, w')))"

text \<open>Lines 304 to 321: \<^verbatim>\<open>if (userList) { ... exit(DoUserList()); }\<close>\<close>

definition main_userlist :: "globals \<Rightarrow> mlocals \<Rightarrow> world \<Rightarrow> outcome \<times> world" where
  "main_userlist g l w =
     (if read_from_stdin l \<noteq> 0 then (Exit 1, fprintf MsgFIncompatAR w)
      else if take 4 (passwdDir l) = ''/tmp'' then (Exit 1, fprintf MsgTIncompatAR w)
      else if otp g \<noteq> 0 then (Exit 1, fprintf MsgOIncompatAR w)
      else (case DoUserList g w of (rc, w') \<Rightarrow> (Exit rc, w')))"

text \<open>
  Lines 345 to 377: the one or two passwords, from \<^verbatim>\<open>stdin\<close> or from the terminal.
  \<open>Inr\<close> gives the array \<open>passwd1\<close>, the array \<open>passwd2_ptr\<close> points to (\<open>None\<close> for
  \<^verbatim>\<open>NULL\<close>) and the world.
\<close>

definition main_passwords :: "globals \<Rightarrow> mlocals \<Rightarrow> world
    \<Rightarrow> (outcome \<times> world) + (char list \<times> char list option \<times> world)" where
  "main_passwords g l w =
     (let passwd1 = uninit w 9; passwd2 = uninit w 9; yesno = uninit w 2 in
      if read_from_stdin l \<noteq> 0 then
        (case read_password passwd1 w of
           (rc1, passwd1, tmp1, w1) \<Rightarrow>
             if rc1 = 0 then Inl (Exit 1, fprintf MsgCouldNotRead w1)
             else
               (case read_password passwd2 w1 of
                  (rc2, passwd2, tmp2, w2) \<Rightarrow>
                    Inr (passwd1, if rc2 \<noteq> 0 then Some passwd2 else None, w2)))
      else
        (case ask_password passwd1 w of
           (Crash, passwd1, tmp1, w1) \<Rightarrow> Inl (Segfault, w1)
         | (Ret rc1, passwd1, tmp1, w1) \<Rightarrow>
             if rc1 = 0 then Inl (Exit 1, w1)
             else
               let (alsoView', w3) =
                     (if alsoView g \<noteq> 0 then (alsoView g, fprintf MsgEnterViewOnly w1)
                      else
                        (case fgets yesno 2 (fprintf MsgAskViewOnly w1) of
                           (None, w2) \<Rightarrow> (alsoView g, w2)
                         | (Some yesno, w2) \<Rightarrow>
                             if strchr (''Yy'' @ [NUL]) (yesno ! 0) \<noteq> None then (1, w2)
                             else (alsoView g, w2)))
               in
                 if alsoView' \<noteq> 0 then
                   (case ask_password passwd2 w3 of
                      (Crash, passwd2, tmp2, w4) \<Rightarrow> Inl (Segfault, w4)
                    | (Ret rc2, passwd2, tmp2, w4) \<Rightarrow>
                        Inr (passwd1, if rc2 \<noteq> 0 then Some passwd2 else None, w4))
                 else Inr (passwd1, None, w3)))"

text \<open>
  Lines 323 to 390: the file name argument, the directory check, the passwords and the
  call that stores them. The \<^verbatim>\<open>memset\<close> calls that follow the storing act on arrays
  of \<^verbatim>\<open>main\<close> that end with the process; they leave no trace in the result.
\<close>

definition main_store :: "string list \<Rightarrow> globals \<Rightarrow> mlocals \<Rightarrow> world \<Rightarrow> outcome \<times> world" where
  "main_store rest g l w =
     (case (case rest of
              [] \<Rightarrow> Inr l
            | a # others \<Rightarrow>
                if length a > 263 - 1 then Inl (Exit 1, fprintf MsgFileNameTooLong w)
                else if read_from_stdin l \<noteq> 0 then Inl (Exit 1, fprintf MsgFilenameWithF w)
                else Inr (l\<lparr>passwdFile := a, read_from_stdin := 0, make_directory := 0,
                            check_strictly := 0\<rparr>)) of
        Inl x \<Rightarrow> x
      | Inr l \<Rightarrow>
          (case (if make_directory l \<noteq> 0 then
                   mkdir_and_check (passwdDir l) (check_strictly l)
                     (fprintf (MsgUsingFile (passwdFile l)) w)
                 else Inr w) of
             Inl x \<Rightarrow> x
           | Inr w1 \<Rightarrow>
               (case main_passwords g l w1 of
                  Inl x \<Rightarrow> x
                | Inr (passwd1, passwd2_ptr, w2) \<Rightarrow>
                    (case vncEncryptAndStorePasswd2 passwd1 passwd2_ptr (passwdFile l) w2 of
                       (False, w3) \<Rightarrow> (Exit 1, fprintf (MsgCannotWrite (passwdFile l)) w3)
                     | (True, w3) \<Rightarrow> (Exit 0, w3)))))"

text \<open>
  The program: \<open>argv\<close> with the program name first (the name is only read by
  \<^verbatim>\<open>usage\<close>, which is not reached when \<open>argv\<close> is empty). \<open>UseDevUrandom\<close> tells whether
  the build defines the macro of that name.
\<close>

definition main :: "bool \<Rightarrow> string list \<Rightarrow> world \<Rightarrow> outcome \<times> world" where
  "main UseDevUrandom argv w =
     (case getenv_safe ''HOME'' 240 w of
        Inl x \<Rightarrow> x
      | Inr home \<Rightarrow>
          let l = \<lparr>read_from_stdin = 0, make_directory = 1, check_strictly = 0,
                   passwdDir = home @ ''/.vnc'',
                   passwdFile = (home @ ''/.vnc'') @ ''/passwd''\<rparr>
          in
            (case parse_args (case argv of [] \<Rightarrow> [] | a # as \<Rightarrow> a) (tl argv) globals0 l w of
               Inl x \<Rightarrow> x
             | Inr (rest, g, l) \<Rightarrow>
                 if otp g \<noteq> 0 then main_otp UseDevUrandom g l w
                 else if userList g \<noteq> 0 then main_userlist g l w
                 else main_store rest g l w))"

subsection \<open>Notions of the specification and example inputs\<close>

text \<open>A world in which everything succeeds: the home directory is \<^verbatim>\<open>/home/u\<close>, the
  user \<^verbatim>\<open>u\<close>, no directory exists yet, the display server knows both properties, and
  nothing waits on the terminal or on \<^verbatim>\<open>stdin\<close>.\<close>

definition example_world :: world where
  "example_world =
     \<lparr>envp = (\<lambda>n. if n = ''HOME'' then Some ''/home/u''
                  else if n = ''USER'' then Some ''u'' else None),
      stdin = [], tty = [], gp_buf = [], stderr = [], junk = (\<lambda>i. CHR ''#''),
      fs = \<lparr>nodes = Map.empty, lstat_err = Map.empty, mkdir_err = Map.empty\<rparr>,
      ruid = 1000, euid = 1000, umask = 0x12,
      xs = \<lparr>x_reachable = (\<lambda>d. True), x_atoms = [''VNC_OTP'', ''VNC_ACL''],
             x_props = Map.empty, x_opened = []\<rparr>,
      urandom_open = None, urandom = [], rand_fn = (\<lambda>i. 0), rand_calls = 0,
      store_ok = True, stored = []\<rparr>"

text \<open>The flag byte of the ACL payload as the specification words it: bit 0 for add,
  bit 4 for view-only.\<close>

definition acl_flag :: "globals \<Rightarrow> char" where
  "acl_flag g =
     (if addUser g = 1 then (if alsoView g \<noteq> 0 then CHR 0x11 else CHR 0x01)
      else (if alsoView g \<noteq> 0 then CHR 0x10 else CHR 0x00))"

text \<open>The globals after \<^verbatim>\<open>-a alice -v\<close>.\<close>

definition globals_alice :: globals where
  "globals_alice = globals0\<lparr>user := Some ''alice'', userList := 1, addUser := 1, alsoView := 1\<rparr>"

text \<open>The number a string of decimal digits denotes.\<close>

definition digits_value :: "char list \<Rightarrow> nat" where
  "digits_value s = foldl (\<lambda>a c. 10 * a + (of_char c - 48)) 0 s"

text \<open>The example world with the given values waiting in \<^verbatim>\<open>/dev/urandom\<close>.\<close>

definition world_urandom :: "32 word list \<Rightarrow> world" where
  "world_urandom rs = example_world\<lparr>urandom := rs\<rparr>"


text \<open>The local variables of \<^verbatim>\<open>main\<close> before the option loop, for the home directory
  \<^verbatim>\<open>/home/u\<close>.\<close>

definition mlocals_home :: mlocals where
  "mlocals_home =
     \<lparr>read_from_stdin = 0, make_directory = 1, check_strictly = 0,
      passwdDir = ''/home/u/.vnc'', passwdFile = ''/home/u/.vnc/passwd''\<rparr>"

text \<open>The example world with one node at \<^verbatim>\<open>/home/u/.vnc\<close>, and the same for a process
  whose effective user is 0 while its real user is 1000.\<close>

definition world_dir :: "stat \<Rightarrow> world" where
  "world_dir st =
     example_world\<lparr>fs := \<lparr>nodes = [''/home/u/.vnc'' \<mapsto> st], lstat_err = Map.empty,
                           mkdir_err = Map.empty\<rparr>\<rparr>"

definition world_setuid :: "stat \<Rightarrow> world" where
  "world_setuid st = (world_dir st)\<lparr>euid := 0\<rparr>"

text \<open>The meaningful bytes of a line of input: those before the first newline or zero
  byte.\<close>

definition meaningful :: "char list \<Rightarrow> char list" where
  "meaningful s = takeWhile (\<lambda>c. c \<noteq> NL \<and> c \<noteq> NUL) s"

text \<open>The example world with the given answers waiting on the terminal.\<close>

definition world_tty :: "string option list \<Rightarrow> world" where
  "world_tty answers = example_world\<lparr>tty := answers\<rparr>"

text \<open>
  The option letters of a command line (the words after the program name), read as the
  usage text describes it: the words are options up to the first that does not start
  with \<^verbatim>\<open>-\<close>; an option is told by the byte after the dash; \<^verbatim>\<open>-display\<close>, \<^verbatim>\<open>-a\<close> and
  \<^verbatim>\<open>-r\<close> take the next word as their argument.
\<close>

fun mode_letters :: "string list \<Rightarrow> char list" where
  "mode_letters [] = []"
| "mode_letters (a # rest) =
     (if char_at a 0 \<noteq> CHR ''-'' then []
      else if char_at a 1 = CHR ''d'' \<or> char_at a 1 = CHR ''a'' \<or> char_at a 1 = CHR ''r''
        then (case rest of [] \<Rightarrow> [char_at a 1] | v # rest' \<Rightarrow> char_at a 1 # mode_letters rest')
      else char_at a 1 # mode_letters rest)"

text \<open>
  The command lines of the OTP mode without \<^verbatim>\<open>-t\<close>, \<^verbatim>\<open>-f\<close>, \<^verbatim>\<open>-a\<close> or \<^verbatim>\<open>-r\<close>: any
  sequence of \<^verbatim>\<open>-o\<close>, \<^verbatim>\<open>-c\<close>, \<^verbatim>\<open>-v\<close> and \<^verbatim>\<open>-display D\<close> with at least one \<^verbatim>\<open>-o\<close> or
  \<^verbatim>\<open>-c\<close>. The flag tells whether one has been seen.
\<close>

fun otp_command_line :: "bool \<Rightarrow> string list \<Rightarrow> bool" where
  "otp_command_line seen [] = seen"
| "otp_command_line seen (a # rest) =
     (if a = ''-o'' \<or> a = ''-c'' then otp_command_line True rest
      else if a = ''-v'' then otp_command_line seen rest
      else if a = ''-display'' then
        (case rest of [] \<Rightarrow> False | d # rest' \<Rightarrow> otp_command_line seen rest')
      else False)"

text \<open>The local variables of \<^verbatim>\<open>main\<close> before the option loop, for a home directory
  \<open>h\<close>.\<close>

definition mlocals_init :: "string \<Rightarrow> mlocals" where
  "mlocals_init h =
     \<lparr>read_from_stdin = 0, make_directory = 1, check_strictly = 0,
      passwdDir = h @ ''/.vnc'', passwdFile = (h @ ''/.vnc'') @ ''/passwd''\<rparr>"

text \<open>The example world with the given home directory.\<close>

definition world_home :: "string \<Rightarrow> world" where
  "world_home h = example_world\<lparr>envp := (\<lambda>n. if n = ''HOME'' then Some h else None)\<rparr>"

section \<open>Verification\<close>

subsection \<open>Lemmas on the ACL payload\<close>

lemma length_uninit [simp]: "length (uninit w n) = n"
  by (simp add: uninit_def)

lemma acl_flag_byte:
  assumes "addUser g = 0 \<or> addUser g = 1"
  shows "char_of (addUser g OR (if alsoView g \<noteq> 0 then 0x10 else 0x00)) = acl_flag g"
  using assms by (auto simp: acl_flag_def char_of_eq_iff)

lemma acl_bytes:
  assumes "0 < length u" "length u \<le> 63"
  shows "take (length u + 1) (memcpy ((uninit w 64)[0 := c]) 1 u (length u)) = c # u"
proof -
  have "take 1 ((uninit w 64)[0 := c]) = [c]"
    by (cases "uninit w 64") (use length_uninit [of w 64] in auto)
  then show ?thesis by (simp add: memcpy_def)
qed

lemma DoUserList_ok:
  assumes "user g = Some u" "1 \<le> length u" "length u \<le> 63"
    "addUser g = 0 \<or> addUser g = 1"
    "x_reachable (xs w) (displayname g)" "''VNC_ACL'' \<in> set (x_atoms (xs w))"
  shows "fst (DoUserList g w) = 0"
    and "x_props (xs (snd (DoUserList g w))) ''VNC_ACL'' = Some (acl_flag g # u)"
proof -
  have len: "0 < length u" using assms(2) by linarith
  have b: "take (Suc (length u)) (memcpy ((uninit w 64)[0 := acl_flag g]) (Suc 0) u (length u))
      = acl_flag g # u"
    using acl_bytes [OF len assms(3), of w "acl_flag g"] by simp
  have j: "uninit (w\<lparr>xs := z\<rparr>) n = uninit w n" for z n
    by (simp add: uninit_def)
  have ne: "u \<noteq> []" using len by auto
  show "fst (DoUserList g w) = 0"
    using assms ne
    by (simp add: DoUserList_def XOpenDisplay_def XInternAtom_def MAXUSERLEN_def Let_def)
  show "x_props (xs (snd (DoUserList g w))) ''VNC_ACL'' = Some (acl_flag g # u)"
    using assms ne b
    by (simp add: DoUserList_def XOpenDisplay_def XInternAtom_def MAXUSERLEN_def Let_def
        XChangeProperty_def acl_flag_byte j)
qed

lemma DoUserList_bad_user:
  assumes "user g = None \<or> user g = Some [] \<or> (\<exists>u. user g = Some u \<and> 63 < length u)"
  shows "DoUserList g w = (1, fprintf MsgMissingUser w)
      \<or> DoUserList g w = (1, fprintf MsgUserTooLarge w)"
  using assms by (auto simp: DoUserList_def MAXUSERLEN_def Let_def)

lemma main_userlist_bad_user:
  assumes "user g = None \<or> user g = Some [] \<or> (\<exists>u. user g = Some u \<and> 63 < length u)"
    and "read_from_stdin l = 0" "take 4 (passwdDir l) \<noteq> ''/tmp''" "otp g = 0"
  shows "fst (main_userlist g l w) = Exit 1" and "xs (snd (main_userlist g l w)) = xs w"
  using DoUserList_bad_user [OF assms(1), of w] assms(2-)
  by (auto simp: main_userlist_def fprintf_def)

subsection \<open>C7: the ACL payload\<close>

text \<open>
  Claim C7. For a username \<open>u\<close> of 1 to 63 bytes, with \<open>addUser\<close> 1 for add and 0 for
  remove (the only values \<^verbatim>\<open>main\<close> stores), a display that opens and a server that
  knows \<^verbatim>\<open>VNC_ACL\<close>, \<^verbatim>\<open>DoUserList\<close> returns 0 and the property \<^verbatim>\<open>VNC_ACL\<close> holds
  exactly the flag byte (bit 0 for add, bit 4 for view-only, nothing else) followed by the
  bytes of \<open>u\<close>. A missing or empty username, or one longer than 63 bytes, makes
  \<^verbatim>\<open>DoUserList\<close> return 1 with the display server untouched: no \<^verbatim>\<open>XOpenDisplay\<close>
  call, no property written; \<^verbatim>\<open>main\<close> then exits with code 1.
\<close>

theorem DoUserList_payload:
  "(user g = Some u \<and> 1 \<le> length u \<and> length u \<le> 63
        \<and> (addUser g = 0 \<or> addUser g = 1)
        \<and> x_reachable (xs w) (displayname g) \<and> ''VNC_ACL'' \<in> set (x_atoms (xs w))
      \<longrightarrow> fst (DoUserList g w) = 0
          \<and> x_props (xs (snd (DoUserList g w))) ''VNC_ACL'' = Some (acl_flag g # u))
   \<and> (user g = None \<or> user g = Some [] \<or> (user g = Some u \<and> 63 < length u)
      \<longrightarrow> fst (DoUserList g w) = 1
          \<and> xs (snd (DoUserList g w)) = xs w
          \<and> (read_from_stdin l = 0 \<and> take 4 (passwdDir l) \<noteq> ''/tmp'' \<and> otp g = 0
                \<longrightarrow> fst (main_userlist g l w) = Exit 1
                    \<and> xs (snd (main_userlist g l w)) = xs w))"
proof -
  have A: "fst (DoUserList g w) = 0
          \<and> x_props (xs (snd (DoUserList g w))) ''VNC_ACL'' = Some (acl_flag g # u)"
    if "user g = Some u \<and> 1 \<le> length u \<and> length u \<le> 63
        \<and> (addUser g = 0 \<or> addUser g = 1)
        \<and> x_reachable (xs w) (displayname g) \<and> ''VNC_ACL'' \<in> set (x_atoms (xs w))"
    using that DoUserList_ok [of g u w] by blast
  have bad: "user g = None \<or> user g = Some [] \<or> (\<exists>v. user g = Some v \<and> 63 < length v)"
    if "user g = None \<or> user g = Some [] \<or> (user g = Some u \<and> 63 < length u)"
    using that by blast
  have B: "fst (DoUserList g w) = 1 \<and> xs (snd (DoUserList g w)) = xs w"
    if "user g = None \<or> user g = Some [] \<or> (user g = Some u \<and> 63 < length u)"
    using DoUserList_bad_user [OF bad [OF that], of w] by (auto simp: fprintf_def)
  have C: "fst (main_userlist g l w) = Exit 1 \<and> xs (snd (main_userlist g l w)) = xs w"
    if "user g = None \<or> user g = Some [] \<or> (user g = Some u \<and> 63 < length u)"
      and "read_from_stdin l = 0 \<and> take 4 (passwdDir l) \<noteq> ''/tmp'' \<and> otp g = 0"
    using main_userlist_bad_user [OF bad [OF that(1)], of l w] that(2) by blast
  from A B C show ?thesis by blast
qed

theorem DoUserList_payload_witness:
  "user globals_alice = Some ''alice'' \<and> addUser globals_alice = 1
   \<and> x_props (xs (snd (DoUserList globals_alice example_world))) ''VNC_ACL''
        = Some (CHR 0x11 # ''alice'')
   \<and> fst (DoUserList (globals0\<lparr>user := Some []\<rparr>) example_world) = 1
   \<and> fst (main_userlist (globals0\<lparr>user := Some []\<rparr>) mlocals_home example_world) = Exit 1"
  using DoUserList_payload [of globals_alice "''alice''" example_world mlocals_home]
    DoUserList_payload [of "globals0\<lparr>user := Some []\<rparr>" "[]" example_world mlocals_home]
  by (simp add: globals_alice_def globals0_def example_world_def acl_flag_def mlocals_home_def)

subsection \<open>Lemmas on the one-time password\<close>

lemma digit_char: "n < 10 \<Longrightarrow> char_of (48 + (n::nat)) \<in> set ''0123456789''"
proof -
  have ten: "(10::nat) = Suc (Suc (Suc (Suc (Suc (Suc (Suc (Suc (Suc (Suc 0)))))))))"
    by simp
  have "\<forall>k<10. char_of (48 + (k::nat)) \<in> set ''0123456789''"
    unfolding ten by (simp add: All_less_Suc char_of_eq_iff)
  then show "n < 10 \<Longrightarrow> char_of (48 + n) \<in> set ''0123456789''" by blast
qed

lemma dec_digits: "set (dec n) \<subseteq> set ''0123456789''"
proof (induction n rule: dec.induct)
  case (1 n)
  show ?case
  proof (cases "n < 10")
    case True
    then show ?thesis using digit_char [of n] by (subst dec.simps) simp
  next
    case False
    have "n mod 10 < 10" by simp
    then have "char_of (48 + n mod 10) \<in> set ''0123456789''" by (rule digit_char)
    with False 1 show ?thesis by (subst dec.simps) simp
  qed
qed

lemma fmt_08u_digits: "set (fmt_08u x) \<subseteq> set ''0123456789''"
  using dec_digits [of "unat x"] by (auto simp: fmt_08u_def Let_def)

lemma length_fmt_08u: "8 \<le> length (fmt_08u x)"
  by (simp add: fmt_08u_def Let_def)

lemma half_length: "length (take 8 (fmt_08u x)) = 8"
  using length_fmt_08u [of x] by simp

lemma half_digits: "set (take 8 (fmt_08u x)) \<subseteq> set ''0123456789''"
  using fmt_08u_digits [of x] set_take_subset [of 8 "fmt_08u x"] by blast

lemma half_no_NUL: "NUL \<notin> set (take 8 (fmt_08u x))"
  using half_digits [of x] by (auto simp: NUL_def)

lemma cstr_no_NUL: "NUL \<notin> set s \<Longrightarrow> cstr (s @ NUL # r) = s"
  by (induction s) (auto simp: cstr_def)

lemma cstr_all: "NUL \<notin> set s \<Longrightarrow> cstr s = s"
  by (induction s) (auto simp: cstr_def)

lemma snprintf_half:
  assumes "length b = 9"
  shows "snprintf b (MAXPWLEN + 1) (fmt_08u x) = take 8 (fmt_08u x) @ [NUL]"
  using assms half_length [of x] by (simp add: snprintf_def MAXPWLEN_def Let_def)

lemma format_otp_eq:
  assumes "length b = 9" "length y = 16"
  shows "format_otp g full view \<lparr>buf = b, bytes = y\<rparr> w =
     (if alsoView g \<noteq> 0 then
        (\<lparr>buf = take 8 (fmt_08u view) @ [NUL],
          bytes = take 8 (fmt_08u full) @ take 8 (fmt_08u view)\<rparr>, 16,
         w\<lparr>stderr := stderr w @ [MsgFullOTP (take 8 (fmt_08u full)),
                                   MsgViewOTP (take 8 (fmt_08u view))]\<rparr>)
      else
        (\<lparr>buf = take 8 (fmt_08u full) @ [NUL],
          bytes = take 8 (fmt_08u full) @ drop 8 y\<rparr>, 8,
         w\<lparr>stderr := stderr w @ [MsgFullOTP (take 8 (fmt_08u full))]\<rparr>))"
proof -
  let ?f = "take 8 (fmt_08u full)" and ?v = "take 8 (fmt_08u view)"
  have lf: "length ?f = 8" and lv: "length ?v = 8" by (rule half_length)+
  have b1: "snprintf b (MAXPWLEN + 1) (fmt_08u full) = ?f @ [NUL]"
    by (rule snprintf_half [OF assms(1)])
  have b2: "snprintf (?f @ [NUL]) (MAXPWLEN + 1) (fmt_08u view) = ?v @ [NUL]"
    using lf by (intro snprintf_half) simp
  have y1: "memcpy y 0 (?f @ [NUL]) MAXPWLEN = ?f @ drop 8 y"
    using lf by (simp add: memcpy_def MAXPWLEN_def)
  have y2: "memcpy (?f @ drop 8 y) MAXPWLEN (?v @ [NUL]) MAXPWLEN = ?f @ ?v"
    using lf lv assms(2) by (simp add: memcpy_def MAXPWLEN_def)
  have p1: "fmt_prec_s MAXPWLEN (?f @ drop 8 y) 0 = ?f"
    using lf half_no_NUL [of full] by (simp add: fmt_prec_s_def MAXPWLEN_def cstr_all)
  have p2: "fmt_prec_s MAXPWLEN (?f @ ?v) MAXPWLEN = ?v"
    using lf lv half_no_NUL [of view] by (simp add: fmt_prec_s_def MAXPWLEN_def cstr_all)
  show ?thesis
    unfolding format_otp_def
    by (simp only: Let_def otp_frame.simps b1 b2 y1 y2 p1 p2)
       (simp add: fprintf_def MAXPWLEN_def)
qed


lemma draw_otp_Some:
  assumes "draw_otp u g w1 = (Some (f, v), w2)"
  shows "stderr w2 = stderr w1 \<and> xs w2 = xs w1"
  using assms
  by (auto simp: draw_otp_def read_urandom_def random_def fprintf_def
      split: if_splits option.splits list.splits prod.splits)

lemma memset_all: "length y = n \<Longrightarrow> memset y 0 c n = replicate n c"
  by (simp add: memset_def)

lemma DoOTP_clear:
  assumes "x_reachable (xs w) (displayname g)" "''VNC_OTP'' \<in> set (x_atoms (xs w))"
    "otpClear g \<noteq> 0"
  shows "fst (DoOTP u g w) = 0"
    and "x_props (xs (snd (snd (DoOTP u g w)))) ''VNC_OTP'' = Some []"
    and "stderr (snd (snd (DoOTP u g w))) = stderr w"
  using assms
  by (simp_all add: DoOTP_def XOpenDisplay_def XInternAtom_def XChangeProperty_def Let_def)

lemma DoOTP_issue:
  assumes "x_reachable (xs w) (displayname g)" "''VNC_OTP'' \<in> set (x_atoms (xs w))"
    "otpClear g = 0"
    "draw_otp u g (snd (XOpenDisplay (displayname g) w)) = (Some (full, view), w2)"
  shows "fst (DoOTP u g w) = 0"
    and "x_props (xs (snd (snd (DoOTP u g w)))) ''VNC_OTP'' =
          Some (if alsoView g \<noteq> 0 then take 8 (fmt_08u full) @ take 8 (fmt_08u view)
                else take 8 (fmt_08u full))"
    and "stderr (snd (snd (DoOTP u g w))) =
          stderr w @ (if alsoView g \<noteq> 0
                      then [MsgFullOTP (take 8 (fmt_08u full)), MsgViewOTP (take 8 (fmt_08u view))]
                      else [MsgFullOTP (take 8 (fmt_08u full))])"
    and "buf (fst (snd (DoOTP u g w))) =
          (if alsoView g \<noteq> 0 then take 8 (fmt_08u view) else take 8 (fmt_08u full)) @ [NUL]"
    and "bytes (fst (snd (DoOTP u g w))) = replicate 16 NUL"
proof -
  let ?w1 = "w\<lparr>xs := (xs w)\<lparr>x_opened := x_opened (xs w) @ [displayname g]\<rparr>\<rparr>"
  have d: "draw_otp u g ?w1 = (Some (full, view), w2)"
    using assms(4) by (simp add: XOpenDisplay_def)
  have s2: "stderr w2 = stderr w" and x2: "xs w2 = xs ?w1"
    using draw_otp_Some [OF d] by simp_all
  have f: "format_otp g full view \<lparr>buf = uninit w 9, bytes = uninit w 16\<rparr> w2 =
     (if alsoView g \<noteq> 0 then
        (\<lparr>buf = take 8 (fmt_08u view) @ [NUL],
          bytes = take 8 (fmt_08u full) @ take 8 (fmt_08u view)\<rparr>, 16,
         w2\<lparr>stderr := stderr w2 @ [MsgFullOTP (take 8 (fmt_08u full)),
                                   MsgViewOTP (take 8 (fmt_08u view))]\<rparr>)
      else
        (\<lparr>buf = take 8 (fmt_08u full) @ [NUL],
          bytes = take 8 (fmt_08u full) @ drop 8 (uninit w 16)\<rparr>, 8,
         w2\<lparr>stderr := stderr w2 @ [MsgFullOTP (take 8 (fmt_08u full))]\<rparr>))"
    by (rule format_otp_eq) simp_all
  have lf: "length (take 8 (fmt_08u full)) = 8" and lv: "length (take 8 (fmt_08u view)) = 8"
    by (rule half_length)+
  have m1: "memset (take 8 (fmt_08u full) @ take 8 (fmt_08u view)) 0 NUL 16
      = replicate 16 NUL"
    using lf lv by (simp add: memset_def MAXPWLEN_def)
  have m2: "memset (take 8 (fmt_08u full) @ drop 8 (uninit w 16)) 0 NUL 16
      = replicate 16 NUL"
    using lf by (simp add: memset_def MAXPWLEN_def)
  have D: "DoOTP u g w =
     (if alsoView g \<noteq> 0 then
        (0, \<lparr>buf = take 8 (fmt_08u view) @ [NUL], bytes = replicate 16 NUL\<rparr>,
         XChangeProperty ''VNC_OTP'' (take 8 (fmt_08u full) @ take 8 (fmt_08u view)) 16
           (w2\<lparr>stderr := stderr w2 @ [MsgFullOTP (take 8 (fmt_08u full)),
                                   MsgViewOTP (take 8 (fmt_08u view))]\<rparr>))
      else
        (0, \<lparr>buf = take 8 (fmt_08u full) @ [NUL], bytes = replicate 16 NUL\<rparr>,
         XChangeProperty ''VNC_OTP'' (take 8 (fmt_08u full) @ drop 8 (uninit w 16)) 8
           (w2\<lparr>stderr := stderr w2 @ [MsgFullOTP (take 8 (fmt_08u full))]\<rparr>)))"
    using assms(1-3) d
    by (simp add: DoOTP_def XOpenDisplay_def XInternAtom_def Let_def MAXPWLEN_def f m1 m2)
  show "fst (DoOTP u g w) = 0" by (simp add: D)
  show "x_props (xs (snd (snd (DoOTP u g w)))) ''VNC_OTP'' =
          Some (if alsoView g \<noteq> 0 then take 8 (fmt_08u full) @ take 8 (fmt_08u view)
                else take 8 (fmt_08u full))"
    using lf lv by (simp add: D XChangeProperty_def)
  show "stderr (snd (snd (DoOTP u g w))) =
          stderr w @ (if alsoView g \<noteq> 0
                      then [MsgFullOTP (take 8 (fmt_08u full)), MsgViewOTP (take 8 (fmt_08u view))]
                      else [MsgFullOTP (take 8 (fmt_08u full))])"
    by (simp add: D XChangeProperty_def s2)
  show "buf (fst (snd (DoOTP u g w))) =
          (if alsoView g \<noteq> 0 then take 8 (fmt_08u view) else take 8 (fmt_08u full)) @ [NUL]"
    by (simp add: D)
  show "bytes (fst (snd (DoOTP u g w))) = replicate 16 NUL"
    by (simp add: D)
qed

lemma length_dec_small: "n < 10 ^ k \<Longrightarrow> 0 < k \<Longrightarrow> length (dec n) \<le> k"
proof (induction n arbitrary: k rule: dec.induct)
  case (1 n)
  show ?case
  proof (cases "n < 10")
    case True
    then show ?thesis using 1(3) by (subst dec.simps) simp
  next
    case False
    then obtain j where k: "k = Suc j" "0 < j"
      using 1(2,3) by (cases k; cases "k - 1") auto
    have "n div 10 < 10 ^ j" using 1(2) k by (simp add: less_mult_imp_div_less mult.commute)
    then have "length (dec (n div 10)) \<le> j" using 1(1) False k by simp
    then show ?thesis using False k by (subst dec.simps) simp
  qed
qed

lemma fmt_08u_small: "unat x < 10 ^ 8 \<Longrightarrow> take 8 (fmt_08u x) = fmt_08u x"
  using length_dec_small [of "unat x" 8] by (simp add: fmt_08u_def Let_def)


lemma digits_value_append:
  "digits_value (s @ [c]) = 10 * digits_value s + (of_char c - 48)"
  by (simp add: digits_value_def)

lemma digits_value_dec: "digits_value (dec n) = n"
proof (induction n rule: dec.induct)
  case (1 n)
  show ?case
  proof (cases "n < 10")
    case True
    then show ?thesis by (subst dec.simps) (simp add: digits_value_def)
  next
    case False
    have "n mod 10 < 256" by (rule less_trans [of _ 10]) simp_all
    then have m: "(48 + n mod 10) mod 256 = 48 + n mod 10"
      by (intro mod_less) arith
    have "digits_value (dec n) = 10 * digits_value (dec (n div 10)) + n mod 10"
      using False by (subst dec.simps) (simp add: digits_value_append m)
    also have "\<dots> = n" using 1 False by simp
    finally show ?thesis .
  qed
qed

lemma digits_value_zeros:
  "foldl (\<lambda>a c. 10 * a + (of_char c - 48)) (0::nat) (replicate k (CHR ''0'')) = 0"
  by (induction k) simp_all

lemma digits_value_fmt_08u: "digits_value (fmt_08u x) = unat x"
  using digits_value_dec [of "unat x"]
  by (simp add: fmt_08u_def Let_def digits_value_def digits_value_zeros)

lemma fmt_08u_1234: "fmt_08u 1234 = ''00001234''"
proof -
  have d: "dec (unat (1234 :: 32 word)) = ''1234''"
    by (simp add: dec.simps char_of_eq_iff)
  show ?thesis
    by (simp only: fmt_08u_def Let_def d) (simp add: numeral_eq_Suc)
qed

lemma fmt_08u_56789: "fmt_08u 56789 = ''00056789''"
proof -
  have d: "dec (unat (56789 :: 32 word)) = ''56789''"
    by (simp add: dec.simps char_of_eq_iff)
  show ?thesis
    by (simp only: fmt_08u_def Let_def d) (simp add: numeral_eq_Suc)
qed

lemma fmt_08u_123456789: "fmt_08u 123456789 = ''123456789''"
  by (simp add: fmt_08u_def dec.simps char_of_eq_iff)

subsection \<open>C6: the OTP payload\<close>

text \<open>
  Claim C6, as amended. When the display opens and the server knows \<^verbatim>\<open>VNC_OTP\<close>: in
  clear mode \<^verbatim>\<open>DoOTP\<close> returns 0 and the property holds zero bytes; otherwise, for the
  values \<open>full\<close> and \<open>view\<close> drawn, it returns 0 and the property holds the 8 bytes
  printed as the full-control password, followed, when a view-only password is asked for,
  by the 8 bytes printed as the view-only password. Each half is the first 8 characters
  of the \<^verbatim>\<open>%08u\<close> rendering of its value: always 8 decimal digits, and the whole
  zero-padded rendering when the value is below \<open>10^8\<close>. (The rendering of a larger value
  has 9 or 10 digits, of which the last are dropped: see the counterexample.)
\<close>

theorem DoOTP_payload:
  assumes "x_reachable (xs w) (displayname g)" and "''VNC_OTP'' \<in> set (x_atoms (xs w))"
  shows "(otpClear g \<noteq> 0 \<longrightarrow>
            fst (DoOTP u g w) = 0
          \<and> x_props (xs (snd (snd (DoOTP u g w)))) ''VNC_OTP'' = Some [])
       \<and> (otpClear g = 0
          \<and> fst (draw_otp u g (snd (XOpenDisplay (displayname g) w))) = Some (full, view) \<longrightarrow>
            fst (DoOTP u g w) = 0
          \<and> (alsoView g = 0 \<longrightarrow>
                x_props (xs (snd (snd (DoOTP u g w)))) ''VNC_OTP'' = Some (take 8 (fmt_08u full))
              \<and> stderr (snd (snd (DoOTP u g w))) =
                  stderr w @ [MsgFullOTP (take 8 (fmt_08u full))])
          \<and> (alsoView g \<noteq> 0 \<longrightarrow>
                x_props (xs (snd (snd (DoOTP u g w)))) ''VNC_OTP'' =
                  Some (take 8 (fmt_08u full) @ take 8 (fmt_08u view))
              \<and> stderr (snd (snd (DoOTP u g w))) =
                  stderr w @ [MsgFullOTP (take 8 (fmt_08u full)),
                              MsgViewOTP (take 8 (fmt_08u view))]))
       \<and> length (take 8 (fmt_08u x)) = 8
       \<and> set (take 8 (fmt_08u x)) \<subseteq> set ''0123456789''
       \<and> digits_value (fmt_08u x) = unat x
       \<and> (unat x < 10 ^ 8 \<longrightarrow> take 8 (fmt_08u x) = fmt_08u x)"
proof -
  have A: "fst (DoOTP u g w) = 0
          \<and> x_props (xs (snd (snd (DoOTP u g w)))) ''VNC_OTP'' = Some []"
    if "otpClear g \<noteq> 0"
    using DoOTP_clear [OF assms that, of u] by simp
  have B: "fst (DoOTP u g w) = 0
          \<and> (alsoView g = 0 \<longrightarrow>
                x_props (xs (snd (snd (DoOTP u g w)))) ''VNC_OTP'' = Some (take 8 (fmt_08u full))
              \<and> stderr (snd (snd (DoOTP u g w))) =
                  stderr w @ [MsgFullOTP (take 8 (fmt_08u full))])
          \<and> (alsoView g \<noteq> 0 \<longrightarrow>
                x_props (xs (snd (snd (DoOTP u g w)))) ''VNC_OTP'' =
                  Some (take 8 (fmt_08u full) @ take 8 (fmt_08u view))
              \<and> stderr (snd (snd (DoOTP u g w))) =
                  stderr w @ [MsgFullOTP (take 8 (fmt_08u full)),
                              MsgViewOTP (take 8 (fmt_08u view))])"
    if "otpClear g = 0"
      and d: "fst (draw_otp u g (snd (XOpenDisplay (displayname g) w))) = Some (full, view)"
  proof -
    obtain w2 where
      "draw_otp u g (snd (XOpenDisplay (displayname g) w)) = (Some (full, view), w2)"
      using d by (cases "draw_otp u g (snd (XOpenDisplay (displayname g) w))") auto
    from DoOTP_issue(1-3) [OF assms that(1) this] show ?thesis by simp
  qed
  have C: "length (take 8 (fmt_08u x)) = 8"
    by (rule half_length)
  have D: "set (take 8 (fmt_08u x)) \<subseteq> set ''0123456789''"
    by (rule half_digits)
  have E: "unat x < 10 ^ 8 \<longrightarrow> take 8 (fmt_08u x) = fmt_08u x"
    using fmt_08u_small [of x] by blast
  from A B C D E digits_value_fmt_08u [of x] show ?thesis by blast
qed


theorem DoOTP_payload_witness:
  "x_props (xs (snd (snd (DoOTP True (globals0\<lparr>otpClear := 1\<rparr>) (world_urandom []))))) ''VNC_OTP''
      = Some []
   \<and> fst (draw_otp True globals0 (snd (XOpenDisplay None (world_urandom [1234])))) = Some (1234, 0)
   \<and> x_props (xs (snd (snd (DoOTP True globals0 (world_urandom [1234]))))) ''VNC_OTP''
      = Some ''00001234''
   \<and> stderr (snd (snd (DoOTP True globals0 (world_urandom [1234])))) = [MsgFullOTP ''00001234'']
   \<and> fst (draw_otp True (globals0\<lparr>alsoView := 1\<rparr>)
         (snd (XOpenDisplay None (world_urandom [1234, 56789])))) = Some (1234, 56789)
   \<and> x_props (xs (snd (snd (DoOTP True (globals0\<lparr>alsoView := 1\<rparr>)
         (world_urandom [1234, 56789]))))) ''VNC_OTP'' = Some ''0000123400056789''
   \<and> unat (1234 :: 32 word) < 10 ^ 8 \<and> take 8 (fmt_08u 1234) = fmt_08u 1234"
  using
    DoOTP_payload [where w = "world_urandom []" and g = "globals0\<lparr>otpClear := 1\<rparr>"
      and u = True and x = 1234]
    DoOTP_payload [where w = "world_urandom [1234]" and g = globals0
      and u = True and full = 1234 and view = 0 and x = 1234]
    DoOTP_payload [where w = "world_urandom [1234, 56789]" and g = "globals0\<lparr>alsoView := 1\<rparr>"
      and u = True and full = 1234 and view = 56789 and x = 1234]
  by (simp add: world_urandom_def example_world_def globals0_def draw_otp_def read_urandom_def
      XOpenDisplay_def fmt_08u_1234 fmt_08u_56789)

text \<open>
  The claim as stated fails when the value drawn has more than 8 decimal digits: for
  123456789 the payload is \<^verbatim>\<open>12345678\<close>, which is not the rendering of that value.
\<close>

theorem DoOTP_payload_counterexample:
  "fst (draw_otp True globals0 (snd (XOpenDisplay None (world_urandom [123456789]))))
      = Some (123456789, 0)
   \<and> x_props (xs (snd (snd (DoOTP True globals0 (world_urandom [123456789]))))) ''VNC_OTP''
      = Some ''12345678''
   \<and> fmt_08u 123456789 = ''123456789''
   \<and> digits_value ''12345678'' \<noteq> unat (123456789 :: 32 word)"
proof -
  have d: "draw_otp True globals0 (snd (XOpenDisplay (displayname globals0) (world_urandom [123456789])))
      = (Some (123456789, 0),
         (snd (XOpenDisplay None (world_urandom [123456789])))\<lparr>urandom := []\<rparr>)"
    by (simp add: world_urandom_def example_world_def globals0_def draw_otp_def read_urandom_def
        XOpenDisplay_def)
  have "x_props (xs (snd (snd (DoOTP True globals0 (world_urandom [123456789]))))) ''VNC_OTP''
      = Some ''12345678''"
    using DoOTP_issue(2) [OF _ _ _ d]
    by (simp add: world_urandom_def example_world_def globals0_def fmt_08u_123456789)
  moreover have "digits_value ''12345678'' \<noteq> unat (123456789 :: 32 word)"
    by (simp add: digits_value_def)
  ultimately show ?thesis
    using d by (simp add: fmt_08u_123456789 globals0_def)
qed

subsection \<open>C5: zeroing of the OTP digits\<close>

text \<open>
  Claim C5 fails on the code. After a successful issue of the one-time password for the
  value 1234, the array \<open>bytes\<close> is zeroed, but the array \<open>buf\<close> that
  \<^verbatim>\<open>snprintf\<close> filled still holds the eight digits just transmitted.
\<close>

theorem DoOTP_leaves_digits_in_buf:
  "fst (DoOTP True globals0 (world_urandom [1234])) = 0
   \<and> x_props (xs (snd (snd (DoOTP True globals0 (world_urandom [1234]))))) ''VNC_OTP''
      = Some ''00001234''
   \<and> bytes (fst (snd (DoOTP True globals0 (world_urandom [1234])))) = replicate 16 NUL
   \<and> buf (fst (snd (DoOTP True globals0 (world_urandom [1234])))) = ''00001234'' @ [NUL]"
proof -
  have d: "draw_otp True globals0 (snd (XOpenDisplay (displayname globals0) (world_urandom [1234])))
      = (Some (1234, 0), (snd (XOpenDisplay None (world_urandom [1234])))\<lparr>urandom := []\<rparr>)"
    by (simp add: world_urandom_def example_world_def globals0_def draw_otp_def read_urandom_def
        XOpenDisplay_def)
  show ?thesis
    using DoOTP_issue(1,2,4,5) [OF _ _ _ d]
    by (simp add: world_urandom_def example_world_def globals0_def fmt_08u_1234)
qed

subsection \<open>Lemmas on the directory check\<close>

lemma owner_only_mode:
  "(S_IRWXG OR S_IRWXO) AND (S_IFDIR OR (S_IRWXU AND NOT um)) = 0"
proof -
  have a: "(S_IRWXG OR S_IRWXO) AND S_IFDIR = 0"
    by (simp add: S_IRWXG_def S_IRWXO_def S_IFDIR_def)
  have b: "(S_IRWXG OR S_IRWXO) AND S_IRWXU = 0"
    by (simp add: S_IRWXG_def S_IRWXO_def S_IRWXU_def)
  have "(S_IRWXG OR S_IRWXO) AND (S_IRWXU AND NOT um) = ((S_IRWXG OR S_IRWXO) AND S_IRWXU) AND NOT um"
    by (simp add: and.assoc)
  then have c: "(S_IRWXG OR S_IRWXO) AND (S_IRWXU AND NOT um) = 0"
    by (simp add: b)
  show ?thesis
    by (simp only: bit.conj_disj_distrib a c) simp
qed

lemma created_is_dir: "S_ISDIR (S_IFDIR OR (S_IRWXU AND NOT um))"
proof -
  have a: "S_IFDIR AND S_IFMT = S_IFDIR"
    by (simp add: S_IFDIR_def S_IFMT_def)
  have b: "S_IRWXU AND S_IFMT = 0"
    by (simp add: S_IRWXU_def S_IFMT_def)
  have "(S_IRWXU AND NOT um) AND S_IFMT = (S_IRWXU AND S_IFMT) AND NOT um"
    by (simp add: and.assoc and.commute and.left_commute)
  then have c: "(S_IRWXU AND NOT um) AND S_IFMT = 0"
    by (simp add: b)
  show ?thesis
    unfolding S_ISDIR_def by (simp only: bit.conj_disj_distrib2 a c) simp
qed

lemma mkdir_and_check_existing:
  assumes "lstat w d = Inr st"
  shows "mkdir_and_check d s w =
     (if \<not> S_ISDIR (st_mode st) then Inl (Exit 1, fprintf (MsgNotDir d) w)
      else if st_uid st \<noteq> ruid w then Inl (Exit 1, fprintf (MsgBadOwner d) w)
      else if s \<noteq> 0 \<and> (S_IRWXG OR S_IRWXO) AND st_mode st \<noteq> 0
        then Inl (Exit 1, fprintf (MsgBadModes d) w)
      else Inr w)"
  using assms by (simp add: mkdir_and_check_def getuid_def)

lemma mkdir_and_check_lstat_failed:
  assumes "lstat w d = Inl e" "e \<noteq> ENOENT"
  shows "mkdir_and_check d s w = Inl (Exit 1, fprintf (MsgLstatFailed d e) w)"
  using assms by (simp add: mkdir_and_check_def)

lemma mkdir_and_check_mkdir_failed:
  assumes "lstat w d = Inl ENOENT"
    and "fst (mkdir d S_IRWXU (fprintf (MsgDirCreating d) w)) = Some e"
  shows "mkdir_and_check d s w =
     Inl (Exit 1, fprintf (MsgMkdirError d e) (fprintf (MsgDirCreating d) w))"
proof -
  obtain w2 where m: "mkdir d S_IRWXU (fprintf (MsgDirCreating d) w) = (Some e, w2)"
    using assms(2) by (cases "mkdir d S_IRWXU (fprintf (MsgDirCreating d) w)") auto
  then have "w2 = fprintf (MsgDirCreating d) w"
    by (auto simp: mkdir_def split: option.splits)
  with m assms(1) show ?thesis
    by (simp add: mkdir_and_check_def Let_def)
qed

lemma mkdir_and_check_created:
  assumes "lstat w d = Inl ENOENT"
    and "mkdir d S_IRWXU (fprintf (MsgDirCreating d) w) = (None, w2)"
  shows "nodes (fs w2) d =
           Some \<lparr>st_mode = S_IFDIR OR (S_IRWXU AND NOT (umask w)), st_uid = euid w\<rparr>"
    and "lstat w2 d = Inl e \<Longrightarrow>
           mkdir_and_check d s w = Inl (Exit 1, fprintf (MsgLstatError d e) w2)"
    and "lstat w2 d = Inr st \<Longrightarrow> mkdir_and_check d s w = mkdir_and_check d s w2"
proof -
  show "nodes (fs w2) d =
           Some \<lparr>st_mode = S_IFDIR OR (S_IRWXU AND NOT (umask w)), st_uid = euid w\<rparr>"
    using assms(2) by (auto simp: mkdir_def fprintf_def split: option.splits)
  show "mkdir_and_check d s w = Inl (Exit 1, fprintf (MsgLstatError d e) w2)"
    if "lstat w2 d = Inl e"
    using assms that by (simp add: mkdir_and_check_def Let_def)
  show "mkdir_and_check d s w = mkdir_and_check d s w2" if "lstat w2 d = Inr st"
    using assms that by (simp add: mkdir_and_check_def Let_def)
qed

lemma mkdir_and_check_fatal:
  assumes "mkdir_and_check d s w = Inl (oc, w')"
  shows "oc = Exit 1 \<and> stored w' = stored w \<and> stdin w' = stdin w \<and> tty w' = tty w"
  using assms
  by (auto simp: mkdir_and_check_def mkdir_def fprintf_def Let_def
      split: sum.splits if_splits option.splits prod.splits)

lemma mkdir_and_check_passed:
  assumes "mkdir_and_check d s w = Inr w'"
  shows "\<exists>st. lstat w' d = Inr st \<and> S_ISDIR (st_mode st) \<and> st_uid st = ruid w'
      \<and> (s \<noteq> 0 \<longrightarrow> (S_IRWXG OR S_IRWXO) AND st_mode st = 0)"
  using assms
  by (auto simp: mkdir_and_check_def getuid_def Let_def
      split: sum.splits if_splits option.splits prod.splits)

lemma main_store_guard_fatal:
  assumes "make_directory l \<noteq> 0"
    and "mkdir_and_check (passwdDir l) (check_strictly l)
           (fprintf (MsgUsingFile (passwdFile l)) w) = Inl x"
  shows "main_store [] g l w = x"
  using assms by (simp add: main_store_def)

subsection \<open>C3: the directory check\<close>

text \<open>
  Claim C3, as amended: the owner is compared with the real user ID of the process
  (\<^verbatim>\<open>getuid()\<close>), not with the effective one. \<^verbatim>\<open>mkdir_and_check\<close> inspects the path
  with \<^verbatim>\<open>lstat\<close>, that is, the node at the path itself, so that a symbolic link is
  not a directory. An inspection failure other than \<^verbatim>\<open>ENOENT\<close> is an \<^verbatim>\<open>exit(1)\<close>. On
  \<^verbatim>\<open>ENOENT\<close> the directory is created with mode \<^verbatim>\<open>S_IRWXU\<close> (a failure is an
  \<^verbatim>\<open>exit(1)\<close>): the new node is a directory without group or other bits; it is then
  inspected again (a failure is an \<^verbatim>\<open>exit(1)\<close>) and judged like a node that existed.
  A node that exists is checked in this order: not a directory, \<^verbatim>\<open>exit(1)\<close>; owner
  other than the real user, \<^verbatim>\<open>exit(1)\<close>; strict and a group or other bit set,
  \<^verbatim>\<open>exit(1)\<close>; otherwise the function returns with the world unchanged. Whenever it
  returns, the path is a directory of the real user, without group or other bits when
  strict. Whenever it exits, the code is 1, nothing was read from \<^verbatim>\<open>stdin\<close> or the
  terminal and nothing was stored, and \<^verbatim>\<open>main\<close> ends with that exit.
\<close>

theorem mkdir_and_check_guard:
  "(lstat w d = Inl e \<and> e \<noteq> ENOENT \<longrightarrow>
      mkdir_and_check d s w = Inl (Exit 1, fprintf (MsgLstatFailed d e) w))
   \<and> (lstat w d = Inl ENOENT
        \<and> fst (mkdir d S_IRWXU (fprintf (MsgDirCreating d) w)) = Some e \<longrightarrow>
      mkdir_and_check d s w =
        Inl (Exit 1, fprintf (MsgMkdirError d e) (fprintf (MsgDirCreating d) w)))
   \<and> (lstat w d = Inl ENOENT
        \<and> mkdir d S_IRWXU (fprintf (MsgDirCreating d) w) = (None, wc) \<longrightarrow>
      nodes (fs wc) d =
        Some \<lparr>st_mode = S_IFDIR OR (S_IRWXU AND NOT (umask w)), st_uid = euid w\<rparr>
      \<and> S_ISDIR (S_IFDIR OR (S_IRWXU AND NOT (umask w)))
      \<and> (S_IRWXG OR S_IRWXO) AND (S_IFDIR OR (S_IRWXU AND NOT (umask w))) = 0
      \<and> (lstat wc d = Inl e \<longrightarrow>
            mkdir_and_check d s w = Inl (Exit 1, fprintf (MsgLstatError d e) wc))
      \<and> (lstat wc d = Inr st \<longrightarrow> mkdir_and_check d s w = mkdir_and_check d s wc))
   \<and> (lstat w d = Inr st \<longrightarrow>
        (\<not> S_ISDIR (st_mode st) \<longrightarrow>
           mkdir_and_check d s w = Inl (Exit 1, fprintf (MsgNotDir d) w))
      \<and> (S_ISDIR (st_mode st) \<and> st_uid st \<noteq> ruid w \<longrightarrow>
           mkdir_and_check d s w = Inl (Exit 1, fprintf (MsgBadOwner d) w))
      \<and> (S_ISDIR (st_mode st) \<and> st_uid st = ruid w
            \<and> s \<noteq> 0 \<and> (S_IRWXG OR S_IRWXO) AND st_mode st \<noteq> 0 \<longrightarrow>
           mkdir_and_check d s w = Inl (Exit 1, fprintf (MsgBadModes d) w))
      \<and> (S_ISDIR (st_mode st) \<and> st_uid st = ruid w
            \<and> (s = 0 \<or> (S_IRWXG OR S_IRWXO) AND st_mode st = 0) \<longrightarrow>
           mkdir_and_check d s w = Inr w))
   \<and> (mkdir_and_check d s w = Inr w' \<longrightarrow>
        (\<exists>st'. lstat w' d = Inr st' \<and> S_ISDIR (st_mode st') \<and> st_uid st' = ruid w'
           \<and> (s \<noteq> 0 \<longrightarrow> (S_IRWXG OR S_IRWXO) AND st_mode st' = 0)))
   \<and> (mkdir_and_check d s w = Inl (oc, w') \<longrightarrow>
        oc = Exit 1 \<and> stored w' = stored w \<and> stdin w' = stdin w \<and> tty w' = tty w)
   \<and> (make_directory l \<noteq> 0
        \<and> mkdir_and_check (passwdDir l) (check_strictly l)
             (fprintf (MsgUsingFile (passwdFile l)) w) = Inl x \<longrightarrow>
      main_store [] g l w = x)"
proof -
  have A: "mkdir_and_check d s w = Inl (Exit 1, fprintf (MsgLstatFailed d e) w)"
    if "lstat w d = Inl e \<and> e \<noteq> ENOENT"
    using that mkdir_and_check_lstat_failed [of w d e s] by blast
  have B: "mkdir_and_check d s w =
        Inl (Exit 1, fprintf (MsgMkdirError d e) (fprintf (MsgDirCreating d) w))"
    if "lstat w d = Inl ENOENT
        \<and> fst (mkdir d S_IRWXU (fprintf (MsgDirCreating d) w)) = Some e"
    using that mkdir_and_check_mkdir_failed [of w d e s] by blast
  have C: "nodes (fs wc) d =
        Some \<lparr>st_mode = S_IFDIR OR (S_IRWXU AND NOT (umask w)), st_uid = euid w\<rparr>
      \<and> (lstat wc d = Inl e \<longrightarrow>
            mkdir_and_check d s w = Inl (Exit 1, fprintf (MsgLstatError d e) wc))
      \<and> (lstat wc d = Inr st \<longrightarrow> mkdir_and_check d s w = mkdir_and_check d s wc)"
    if "lstat w d = Inl ENOENT
        \<and> mkdir d S_IRWXU (fprintf (MsgDirCreating d) w) = (None, wc)"
    using that mkdir_and_check_created [of w d wc] by blast
  have D: "(\<not> S_ISDIR (st_mode st) \<longrightarrow>
           mkdir_and_check d s w = Inl (Exit 1, fprintf (MsgNotDir d) w))
      \<and> (S_ISDIR (st_mode st) \<and> st_uid st \<noteq> ruid w \<longrightarrow>
           mkdir_and_check d s w = Inl (Exit 1, fprintf (MsgBadOwner d) w))
      \<and> (S_ISDIR (st_mode st) \<and> st_uid st = ruid w
            \<and> s \<noteq> 0 \<and> (S_IRWXG OR S_IRWXO) AND st_mode st \<noteq> 0 \<longrightarrow>
           mkdir_and_check d s w = Inl (Exit 1, fprintf (MsgBadModes d) w))
      \<and> (S_ISDIR (st_mode st) \<and> st_uid st = ruid w
            \<and> (s = 0 \<or> (S_IRWXG OR S_IRWXO) AND st_mode st = 0) \<longrightarrow>
           mkdir_and_check d s w = Inr w)"
    if "lstat w d = Inr st"
    by (simp add: mkdir_and_check_existing [OF that])
  have E: "\<exists>st'. lstat w' d = Inr st' \<and> S_ISDIR (st_mode st') \<and> st_uid st' = ruid w'
           \<and> (s \<noteq> 0 \<longrightarrow> (S_IRWXG OR S_IRWXO) AND st_mode st' = 0)"
    if "mkdir_and_check d s w = Inr w'"
    using that by (rule mkdir_and_check_passed)
  have F: "oc = Exit 1 \<and> stored w' = stored w \<and> stdin w' = stdin w \<and> tty w' = tty w"
    if "mkdir_and_check d s w = Inl (oc, w')"
    using that by (rule mkdir_and_check_fatal)
  have G: "main_store [] g l w = x"
    if "make_directory l \<noteq> 0
        \<and> mkdir_and_check (passwdDir l) (check_strictly l)
             (fprintf (MsgUsingFile (passwdFile l)) w) = Inl x"
    using that main_store_guard_fatal [of l w x g] by blast
  note H = created_is_dir [of "umask w"] owner_only_mode [of "umask w"]
  from A B C D E F G H show ?thesis by blast
qed


theorem mkdir_and_check_guard_witness:
  "mkdir_and_check ''/home/u/.vnc'' 1 (world_dir \<lparr>st_mode = 0x41FF, st_uid = 1000\<rparr>)
      = Inl (Exit 1, fprintf (MsgBadModes ''/home/u/.vnc'')
                       (world_dir \<lparr>st_mode = 0x41FF, st_uid = 1000\<rparr>))
   \<and> mkdir_and_check ''/home/u/.vnc'' 0 (world_dir \<lparr>st_mode = 0x41FF, st_uid = 1000\<rparr>)
      = Inr (world_dir \<lparr>st_mode = 0x41FF, st_uid = 1000\<rparr>)
   \<and> mkdir_and_check ''/home/u/.vnc'' 0 (world_dir \<lparr>st_mode = 0xA1FF, st_uid = 1000\<rparr>)
      = Inl (Exit 1, fprintf (MsgNotDir ''/home/u/.vnc'')
                       (world_dir \<lparr>st_mode = 0xA1FF, st_uid = 1000\<rparr>))
   \<and> mkdir_and_check ''/home/u/.vnc'' 0 (world_dir \<lparr>st_mode = 0x41C0, st_uid = 1001\<rparr>)
      = Inl (Exit 1, fprintf (MsgBadOwner ''/home/u/.vnc'')
                       (world_dir \<lparr>st_mode = 0x41C0, st_uid = 1001\<rparr>))
   \<and> lstat example_world ''/home/u/.vnc'' = Inl ENOENT
   \<and> mkdir_and_check ''/home/u/.vnc'' 1 example_world
      = mkdir_and_check ''/home/u/.vnc'' 1
          (snd (mkdir ''/home/u/.vnc'' S_IRWXU (fprintf (MsgDirCreating ''/home/u/.vnc'') example_world)))
   \<and> mkdir_and_check ''/home/u/.vnc'' 1
          (snd (mkdir ''/home/u/.vnc'' S_IRWXU (fprintf (MsgDirCreating ''/home/u/.vnc'') example_world)))
      = Inr (snd (mkdir ''/home/u/.vnc'' S_IRWXU (fprintf (MsgDirCreating ''/home/u/.vnc'') example_world)))"
proof -
  let ?d = "''/home/u/.vnc''"
  have l: "lstat (world_dir st) ?d = Inr st" for st
    by (simp add: world_dir_def example_world_def lstat_def)
  have r: "ruid (world_dir st) = 1000" for st
    by (simp add: world_dir_def example_world_def)
  have m1: "S_ISDIR 0x41FF" "S_ISDIR 0x41C0" "\<not> S_ISDIR 0xA1FF"
    "(S_IRWXG OR S_IRWXO) AND 0x41FF \<noteq> 0" "(S_IRWXG OR S_IRWXO) AND 0x41C0 = 0"
    by (simp_all add: S_ISDIR_def S_IFMT_def S_IFDIR_def S_IRWXG_def S_IRWXO_def)
  have c1: "mkdir_and_check ?d 1 (world_dir \<lparr>st_mode = 0x41FF, st_uid = 1000\<rparr>)
      = Inl (Exit 1, fprintf (MsgBadModes ?d) (world_dir \<lparr>st_mode = 0x41FF, st_uid = 1000\<rparr>))"
    using mkdir_and_check_guard [where w = "world_dir \<lparr>st_mode = 0x41FF, st_uid = 1000\<rparr>"
      and d = ?d and s = 1 and st = "\<lparr>st_mode = 0x41FF, st_uid = 1000\<rparr>",
      THEN conjunct2, THEN conjunct2, THEN conjunct2, THEN conjunct1]
    by (simp add: l r m1)
  have c2: "mkdir_and_check ?d 0 (world_dir \<lparr>st_mode = 0x41FF, st_uid = 1000\<rparr>)
      = Inr (world_dir \<lparr>st_mode = 0x41FF, st_uid = 1000\<rparr>)"
    using mkdir_and_check_guard [where w = "world_dir \<lparr>st_mode = 0x41FF, st_uid = 1000\<rparr>"
      and d = ?d and s = 0 and st = "\<lparr>st_mode = 0x41FF, st_uid = 1000\<rparr>",
      THEN conjunct2, THEN conjunct2, THEN conjunct2, THEN conjunct1]
    by (simp add: l r m1)
  have c3: "mkdir_and_check ?d 0 (world_dir \<lparr>st_mode = 0xA1FF, st_uid = 1000\<rparr>)
      = Inl (Exit 1, fprintf (MsgNotDir ?d) (world_dir \<lparr>st_mode = 0xA1FF, st_uid = 1000\<rparr>))"
    using mkdir_and_check_guard [where w = "world_dir \<lparr>st_mode = 0xA1FF, st_uid = 1000\<rparr>"
      and d = ?d and s = 0 and st = "\<lparr>st_mode = 0xA1FF, st_uid = 1000\<rparr>",
      THEN conjunct2, THEN conjunct2, THEN conjunct2, THEN conjunct1]
    by (simp add: l r m1)
  have c4: "mkdir_and_check ?d 0 (world_dir \<lparr>st_mode = 0x41C0, st_uid = 1001\<rparr>)
      = Inl (Exit 1, fprintf (MsgBadOwner ?d) (world_dir \<lparr>st_mode = 0x41C0, st_uid = 1001\<rparr>))"
    using mkdir_and_check_guard [where w = "world_dir \<lparr>st_mode = 0x41C0, st_uid = 1001\<rparr>"
      and d = ?d and s = 0 and st = "\<lparr>st_mode = 0x41C0, st_uid = 1001\<rparr>",
      THEN conjunct2, THEN conjunct2, THEN conjunct2, THEN conjunct1]
    by (simp add: l r m1)
  let ?wc = "snd (mkdir ?d S_IRWXU (fprintf (MsgDirCreating ?d) example_world))"
  have c5: "lstat example_world ?d = Inl ENOENT"
    by (simp add: example_world_def lstat_def)
  have mk: "mkdir ?d S_IRWXU (fprintf (MsgDirCreating ?d) example_world) = (None, ?wc)"
    by (simp add: example_world_def mkdir_def fprintf_def)
  have lc: "lstat ?wc ?d = Inr \<lparr>st_mode = 0x41C0, st_uid = 1000\<rparr>"
    by (simp add: example_world_def mkdir_def fprintf_def lstat_def S_IFDIR_def S_IRWXU_def)
  have rc: "ruid ?wc = 1000"
    by (simp add: example_world_def mkdir_def fprintf_def)
  have c6: "mkdir_and_check ?d 1 example_world = mkdir_and_check ?d 1 ?wc"
    using mkdir_and_check_guard [where w = example_world and d = ?d and s = 1
      and wc = ?wc and st = "\<lparr>st_mode = 0x41C0, st_uid = 1000\<rparr>" and e = ENOENT,
      THEN conjunct2, THEN conjunct2, THEN conjunct1] c5 mk lc
    by simp
  have c7: "mkdir_and_check ?d 1 ?wc = Inr ?wc"
    using mkdir_and_check_guard [where w = ?wc and d = ?d and s = 1
      and st = "\<lparr>st_mode = 0x41C0, st_uid = 1000\<rparr>",
      THEN conjunct2, THEN conjunct2, THEN conjunct2, THEN conjunct1] lc rc m1
    by simp
  from c1 c2 c3 c4 c5 c6 c7 show ?thesis by (intro conjI)
qed

text \<open>
  The claim as stated fails for a process whose effective user (0) differs from its real
  user (1000): a directory owned by the effective user is refused, and one owned by the
  real user is accepted although the effective user does not own it.
\<close>

theorem mkdir_and_check_effective_user_counterexample:
  "euid (world_setuid \<lparr>st_mode = 0x41C0, st_uid = 0\<rparr>) = 0
   \<and> lstat (world_setuid \<lparr>st_mode = 0x41C0, st_uid = 0\<rparr>) ''/home/u/.vnc''
        = Inr \<lparr>st_mode = 0x41C0, st_uid = 0\<rparr>
   \<and> mkdir_and_check ''/home/u/.vnc'' 0 (world_setuid \<lparr>st_mode = 0x41C0, st_uid = 0\<rparr>)
        = Inl (Exit 1, fprintf (MsgBadOwner ''/home/u/.vnc'')
                         (world_setuid \<lparr>st_mode = 0x41C0, st_uid = 0\<rparr>))
   \<and> euid (world_setuid \<lparr>st_mode = 0x41C0, st_uid = 1000\<rparr>) = 0
   \<and> mkdir_and_check ''/home/u/.vnc'' 1 (world_setuid \<lparr>st_mode = 0x41C0, st_uid = 1000\<rparr>)
        = Inr (world_setuid \<lparr>st_mode = 0x41C0, st_uid = 1000\<rparr>)"
proof -
  have a: "lstat (world_setuid st) ''/home/u/.vnc'' = Inr st" for st
    by (simp add: world_setuid_def world_dir_def example_world_def lstat_def)
  have r: "ruid (world_setuid st) = 1000" and e: "euid (world_setuid st) = 0" for st
    by (simp_all add: world_setuid_def world_dir_def example_world_def)
  show ?thesis
    by (simp add: a r e mkdir_and_check_existing [OF a]
        S_ISDIR_def S_IFMT_def S_IFDIR_def S_IRWXG_def S_IRWXO_def)
qed

subsection \<open>Lemmas on the reading of passwords\<close>

lemma cstr_append_NUL: "cstr (a @ NUL # r) = cstr a"
  by (induction a) (simp_all add: cstr_def)

lemma NUL_notin_cstr: "NUL \<notin> set (cstr a)"
  by (auto simp: cstr_def dest: set_takeWhileD)

lemma cstr_id: "NUL \<notin> set a \<Longrightarrow> cstr a = a"
  by (induction a) (auto simp: cstr_def)

lemma cstr_idem: "cstr (cstr a) = cstr a"
  by (rule cstr_id) (rule NUL_notin_cstr)

lemma buf_split: "b = cstr b @ drop (strlen b) b"
  by (simp add: cstr_def strlen_def dropWhile_eq_drop [symmetric])

lemma take_strlen: "take (strlen b) b = cstr b"
  by (induction b) (simp_all add: cstr_def strlen_def)

lemma take_le_strlen: "n \<le> strlen b \<Longrightarrow> take n b = take n (cstr b)"
proof -
  assume "n \<le> strlen b"
  then have "take n b = take n (take (strlen b) b)" by (simp add: min_def)
  then show ?thesis by (simp add: take_strlen)
qed

lemma cstr_strcpy: "cstr (strcpy dst src) = cstr src"
  using cstr_append_NUL [of "cstr src" "drop (strlen src + 1) dst"]
  by (simp add: strcpy_def cstr_idem)

lemma cstr_truncate:
  assumes "8 \<le> strlen b" "0 < k"
  shows "cstr (memset b 8 NUL k) = take 8 (cstr b)"
proof -
  obtain j where k: "k = Suc j"
    using assms(2) by (cases k) auto
  have t: "take 8 b = take 8 (cstr b)"
    using assms(1) by (intro take_le_strlen)
  have "NUL \<notin> set (take 8 (cstr b))"
    using NUL_notin_cstr [of b] by (auto dest: in_set_takeD)
  then have "cstr (take 8 (cstr b) @ NUL # r) = take 8 (cstr b)" for r
    by (simp add: cstr_append_NUL cstr_id)
  then show ?thesis
    by (simp add: memset_def k t)
qed

lemma strlen_truncate:
  assumes "8 \<le> strlen b" "0 < k"
  shows "strlen (memset b 8 NUL k) = 8"
  using cstr_truncate [OF assms] assms(1) by (simp add: strlen_def)

lemma memset_cstr_zero:
  "memset b 0 NUL (strlen b) = replicate (strlen b) NUL @ drop (strlen b) b"
  by (simp add: memset_def)


lemma fgets_take_prefix: "take (length (fgets_take k s)) s = fgets_take k s"
  by (induction k s rule: fgets_take.induct) simp_all

lemma fgets_take_Nil: "fgets_take k s = [] \<longleftrightarrow> k = 0 \<or> s = []"
  by (induction k s rule: fgets_take.induct) simp_all

lemma fgets_take_empty: "fgets_take k [] = []"
  by (simp add: fgets_take_Nil)

lemma fgets_take_whole:
  "length s \<le> k \<Longrightarrow> NL \<notin> set (butlast s) \<Longrightarrow> fgets_take k s = s"
  by (induction k s rule: fgets_take.induct) (auto split: if_splits)

lemma meaningful_fgets_take: "meaningful (fgets_take k s) = take k (meaningful s)"
  by (induction k s rule: fgets_take.induct) (simp_all add: meaningful_def)

lemma meaningful_cstr: "takeWhile (\<lambda>x. x \<noteq> NL) (cstr c) = meaningful c"
  by (induction c) (simp_all add: cstr_def meaningful_def)

lemma meaningful_prefix: "n \<le> length (meaningful s) \<Longrightarrow> take n (meaningful s) = take n s"
  unfolding meaningful_def
proof (induction s arbitrary: n)
  case Nil
  then show ?case by simp
next
  case (Cons a s)
  then show ?case by (cases n) (auto split: if_splits)
qed

text \<open>The newline removal of lines 482 to 484.\<close>

lemma cstr_strip_newline:
  "cstr (case strchr (c @ NUL # r) NL of None \<Rightarrow> c @ NUL # r
         | Some ptr \<Rightarrow> (c @ NUL # r)[ptr := NUL]) = meaningful c"
proof -
  let ?n = "length (takeWhile (\<lambda>x. x \<noteq> NL) (cstr c))"
  have nl: "NL \<noteq> NUL" by (simp add: NL_def NUL_def)
  have sl: "strlen (c @ NUL # r) = length (cstr c)"
    by (simp add: strlen_def cstr_append_NUL)
  show ?thesis
  proof (cases "?n < length (cstr c)")
    case True
    then have s: "strchr (c @ NUL # r) NL = Some ?n"
      using nl by (simp add: strchr_def sl cstr_append_NUL Let_def)
    have c: "c = cstr c @ drop (strlen c) c" by (rule buf_split)
    have len: "?n < length c" using True
      by (metis c length_append trans_less_add1)
    have "take ?n c = take ?n (cstr c)"
      using True by (intro take_le_strlen) (simp add: strlen_def)
    also have "\<dots> = takeWhile (\<lambda>x. x \<noteq> NL) (cstr c)"
      by (metis takeWhile_eq_take takeWhile_idem)
    finally have t: "take ?n c = meaningful c" by (simp add: meaningful_cstr)
    have "(c @ NUL # r)[?n := NUL] = take ?n c @ NUL # drop (Suc ?n) c @ NUL # r"
      using len by (simp add: list_update_append upd_conv_take_nth_drop)
    then have "cstr ((c @ NUL # r)[?n := NUL]) = cstr (take ?n c)"
      by (simp add: cstr_append_NUL)
    also have "\<dots> = meaningful c"
      unfolding t by (rule cstr_id) (auto simp: meaningful_def dest: set_takeWhileD)
    finally show ?thesis by (simp add: s)
  next
    case False
    then have s: "strchr (c @ NUL # r) NL = None"
      using nl by (simp add: strchr_def sl cstr_append_NUL Let_def)
    have "length (takeWhile (\<lambda>x. x \<noteq> NL) (cstr c)) \<le> length (cstr c)"
      by (rule length_takeWhile_le)
    with False have "length (takeWhile (\<lambda>x. x \<noteq> NL) (cstr c)) = length (cstr c)" by simp
    then have "takeWhile (\<lambda>x. x \<noteq> NL) (cstr c) = cstr c"
      by (metis takeWhile_eq_take take_all order_refl)
    then have "meaningful c = cstr c"
      using meaningful_cstr [of c] by simp
    then show ?thesis by (simp add: s cstr_append_NUL)
  qed
qed


lemma read_password_eof:
  assumes "stdin w = []"
  shows "read_password result w = (0, result, uninit w 256, w)"
  using assms by (simp add: read_password_def fgets_def fgets_take_empty)

lemma read_password_line:
  assumes "stdin w \<noteq> []"
  shows "fst (read_password result w) = 1"
    and "cstr (fst (snd (read_password result w))) = take 8 (meaningful (stdin w))"
    and "stderr (snd (snd (snd (read_password result w)))) =
           stderr w @ (if 8 < length (meaningful (stdin w)) then [MsgTruncated] else [])"
    and "stdin (snd (snd (snd (read_password result w)))) =
           drop (length (fgets_take 255 (stdin w))) (stdin w)"
    and "stored (snd (snd (snd (read_password result w)))) = stored w"
    and "tty (snd (snd (snd (read_password result w)))) = tty w"
proof -
  let ?c = "fgets_take 255 (stdin w)"
  let ?r = "drop (Suc (length ?c)) (uninit w 256)"
  let ?w1 = "w\<lparr>stdin := drop (length ?c) (stdin w)\<rparr>"
  let ?b2 = "case strchr (?c @ NUL # ?r) NL of None \<Rightarrow> ?c @ NUL # ?r
         | Some ptr \<Rightarrow> (?c @ NUL # ?r)[ptr := NUL]"
  have ne: "?c \<noteq> []" using assms by (simp add: fgets_take_Nil)
  have f: "fgets (uninit w 256) 256 w = (Some (?c @ NUL # ?r), ?w1)"
    using ne by (simp add: fgets_def Let_def)
  have c2: "cstr ?b2 = take 255 (meaningful (stdin w))"
    by (simp only: cstr_strip_newline meaningful_fgets_take)
  have l2: "strlen ?b2 = min 255 (length (meaningful (stdin w)))"
    using c2 by (simp add: strlen_def min.commute)
  have R: "read_password result w =
     (if 8 < strlen ?b2
      then (1, strcpy result (memset ?b2 8 NUL (strlen ?b2 - 8)),
            memset (memset ?b2 8 NUL (strlen ?b2 - 8)) 0 NUL
              (strlen (memset ?b2 8 NUL (strlen ?b2 - 8))),
            fprintf MsgTruncated ?w1)
      else (1, strcpy result ?b2, memset ?b2 0 NUL (strlen ?b2), ?w1))"
    by (simp add: read_password_def f Let_def)
  show "fst (read_password result w) = 1" by (simp add: R)
  show "cstr (fst (snd (read_password result w))) = take 8 (meaningful (stdin w))"
  proof (cases "8 < strlen ?b2")
    case True
    then show ?thesis
      by (simp add: R cstr_strcpy cstr_truncate c2)
  next
    case False
    then have "length (meaningful (stdin w)) \<le> 8" using l2 by simp
    with False show ?thesis
      by (simp add: R cstr_strcpy c2)
  qed
  show "stderr (snd (snd (snd (read_password result w)))) =
           stderr w @ (if 8 < length (meaningful (stdin w)) then [MsgTruncated] else [])"
    using l2 by (simp add: R fprintf_def)
  show "stdin (snd (snd (snd (read_password result w)))) =
           drop (length (fgets_take 255 (stdin w))) (stdin w)"
    by (simp add: R fprintf_def)
  show "stored (snd (snd (snd (read_password result w)))) = stored w"
    by (simp add: R fprintf_def)
  show "tty (snd (snd (snd (read_password result w)))) = tty w"
    by (simp add: R fprintf_def)
qed


lemma strlen_append_NUL: "strlen (a @ NUL # r) = strlen a"
  by (simp add: strlen_def cstr_append_NUL)

lemma cstr_short: "strlen b \<le> 8 \<Longrightarrow> take 8 (cstr b) = cstr b"
  by (simp add: strlen_def)




lemma ask_round_match:
  assumes "tty w = Some p # Some v # rest" "6 \<le> strlen p"
    "take 8 (cstr v) = take 8 (cstr p)"
  shows "fst (ask_password_loop result pc w) = Ret 1
    \<and> cstr (fst (snd (ask_password_loop result pc w))) = take 8 (cstr p)
    \<and> stderr (snd (snd (snd (ask_password_loop result pc w)))) =
           stderr w @ (if 8 < strlen p then [MsgTruncated] else [])
    \<and> tty (snd (snd (snd (ask_password_loop result pc w)))) = rest
    \<and> stdin (snd (snd (snd (ask_password_loop result pc w)))) = stdin w
    \<and> stored (snd (snd (snd (ask_password_loop result pc w)))) = stored w"
proof -
  have n6: "\<not> strlen p < 6" using assms(2) by simp
  note S = getpass_def assms(1) n6 strlen_append_NUL cstr_append_NUL cstr_strcpy
    cstr_truncate strlen_truncate fprintf_def Let_def
  have sp: "take 8 (cstr p) = cstr p" if "\<not> 8 < strlen p"
    using that by (simp add: strlen_def)
  have sv: "take 8 (cstr v) = cstr v" if "\<not> 8 < strlen v"
    using that by (simp add: strlen_def)
  note m = assms(3)
  show ?thesis
  proof (cases "8 < strlen p"; cases "8 < strlen v")
    assume a: "8 < strlen p" "8 < strlen v"
    show ?thesis
      using a m
      by (subst (1 2 3 4 5 6) ask_password_loop.simps) (simp add: S)
  next
    assume a: "8 < strlen p" "\<not> 8 < strlen v"
    have e: "cstr v = take 8 (cstr p)" using sv [OF a(2)] m by simp
    show ?thesis
      using a e
      by (subst (1 2 3 4 5 6) ask_password_loop.simps) (simp add: S)
  next
    assume a: "\<not> 8 < strlen p" "8 < strlen v"
    have e: "take 8 (cstr v) = cstr p" using sp [OF a(1)] m by simp
    show ?thesis
      using a e
      by (subst (1 2 3 4 5 6) ask_password_loop.simps) (simp add: S sp [OF a(1)])
  next
    assume a: "\<not> 8 < strlen p" "\<not> 8 < strlen v"
    have e: "cstr v = cstr p" using sp [OF a(1)] sv [OF a(2)] m by simp
    show ?thesis
      using a e
      by (subst (1 2 3 4 5 6) ask_password_loop.simps) (simp add: S sp [OF a(1)])
  qed
qed

lemma ask_too_short:
  assumes "tty w = Some p # rest" "strlen p < 6"
  shows "ask_password_loop result pc w =
     (Ret 0, result, pc,
      w\<lparr>tty := rest, gp_buf := p @ NUL # drop (Suc (length p)) (gp_buf w),
        stderr := stderr w @ [MsgTooShort]\<rparr>)"
  using assms(2)
  by (subst ask_password_loop.simps)
     (simp add: getpass_def assms(1) strlen_append_NUL fprintf_def)

lemma ask_not_tty:
  assumes "tty w = [] \<or> (\<exists>rest. tty w = None # rest)"
  shows "ask_password_loop result pc w =
     (Ret 0, result, pc, w\<lparr>tty := tl (tty w), stderr := stderr w @ [MsgNotTty]\<rparr>)"
  using assms
  by (subst ask_password_loop.simps) (auto simp: getpass_def fprintf_def)

text \<open>A round whose confirmation differs: the loop starts again with the answers that
  remain.\<close>

lemma ask_round_mismatch:
  assumes "tty w = Some p # Some v # rest" "6 \<le> strlen p"
    "take 8 (cstr v) \<noteq> take 8 (cstr p)"
  shows "\<exists>pc' b. ask_password_loop result pc w =
        ask_password_loop result pc'
          (w\<lparr>tty := rest, gp_buf := b,
             stderr := stderr w @ (if 8 < strlen p then [MsgTruncated] else []) @ [MsgMismatch]\<rparr>)
      \<and> cstr pc' = take 8 (cstr p) \<and> cstr b = take 8 (cstr v)"
proof -
  have n6: "\<not> strlen p < 6" using assms(2) by simp
  note S = getpass_def assms(1) n6 strlen_append_NUL fprintf_def Let_def
  note C = cstr_append_NUL cstr_strcpy cstr_truncate strlen_append_NUL
  have sp: "take 8 (cstr p) = cstr p" if "\<not> 8 < strlen p"
    using that by (simp add: strlen_def)
  have sv: "take 8 (cstr v) = cstr v" if "\<not> 8 < strlen v"
    using that by (simp add: strlen_def)
  note m = assms(3)
  let ?b1 = "p @ NUL # drop (Suc (length p)) (gp_buf w)"
  let ?t1 = "memset ?b1 8 NUL (strlen p - 8)"
  show ?thesis
  proof (cases "8 < strlen p"; cases "8 < strlen v")
    assume a: "8 < strlen p" "8 < strlen v"
    let ?b2 = "memset (v @ NUL # drop (Suc (length v)) ?t1) 8 NUL (strlen v - 8)"
    have c1: "cstr (strcpy pc ?t1) = take 8 (cstr p)" using a by (simp add: C)
    have c2: "cstr ?b2 = take 8 (cstr v)" using a by (simp add: C)
    have ne: "cstr ?b2 \<noteq> cstr (strcpy pc ?t1)" unfolding c1 c2 by (rule m)
    have "ask_password_loop result pc w = ask_password_loop result (strcpy pc ?t1)
          (w\<lparr>tty := rest, gp_buf := ?b2, stderr := stderr w @ [MsgTruncated] @ [MsgMismatch]\<rparr>)"
      using a ne by (subst ask_password_loop.simps) (simp add: S)
    with c1 c2 a show ?thesis by (intro exI [of _ "strcpy pc ?t1"] exI [of _ ?b2]) simp
  next
    assume a: "8 < strlen p" "\<not> 8 < strlen v"
    let ?b2 = "v @ NUL # drop (Suc (length v)) ?t1"
    have c1: "cstr (strcpy pc ?t1) = take 8 (cstr p)" using a by (simp add: C)
    have c2: "cstr ?b2 = take 8 (cstr v)" using sv [OF a(2)] by (simp add: C)
    have ne: "cstr ?b2 \<noteq> cstr (strcpy pc ?t1)" unfolding c1 c2 by (rule m)
    have "ask_password_loop result pc w = ask_password_loop result (strcpy pc ?t1)
          (w\<lparr>tty := rest, gp_buf := ?b2, stderr := stderr w @ [MsgTruncated] @ [MsgMismatch]\<rparr>)"
      using a ne by (subst ask_password_loop.simps) (simp add: S)
    with c1 c2 a show ?thesis by (intro exI [of _ "strcpy pc ?t1"] exI [of _ ?b2]) simp
  next
    assume a: "\<not> 8 < strlen p" "8 < strlen v"
    let ?b2 = "memset (v @ NUL # drop (Suc (length v)) ?b1) 8 NUL (strlen v - 8)"
    have c1: "cstr (strcpy pc ?b1) = take 8 (cstr p)" using sp [OF a(1)] by (simp add: C)
    have c2: "cstr ?b2 = take 8 (cstr v)" using a by (simp add: C)
    have ne: "cstr ?b2 \<noteq> cstr (strcpy pc ?b1)" unfolding c1 c2 by (rule m)
    have "ask_password_loop result pc w = ask_password_loop result (strcpy pc ?b1)
          (w\<lparr>tty := rest, gp_buf := ?b2, stderr := stderr w @ [] @ [MsgMismatch]\<rparr>)"
      using a ne by (subst ask_password_loop.simps) (simp add: S)
    with c1 c2 a show ?thesis by (intro exI [of _ "strcpy pc ?b1"] exI [of _ ?b2]) simp
  next
    assume a: "\<not> 8 < strlen p" "\<not> 8 < strlen v"
    let ?b2 = "v @ NUL # drop (Suc (length v)) ?b1"
    have c1: "cstr (strcpy pc ?b1) = take 8 (cstr p)" using sp [OF a(1)] by (simp add: C)
    have c2: "cstr ?b2 = take 8 (cstr v)" using sv [OF a(2)] by (simp add: C)
    have ne: "cstr ?b2 \<noteq> cstr (strcpy pc ?b1)" unfolding c1 c2 by (rule m)
    have "ask_password_loop result pc w = ask_password_loop result (strcpy pc ?b1)
          (w\<lparr>tty := rest, gp_buf := ?b2, stderr := stderr w @ [] @ [MsgMismatch]\<rparr>)"
      using a ne by (subst ask_password_loop.simps) (simp add: S)
    with c1 c2 a show ?thesis by (intro exI [of _ "strcpy pc ?b1"] exI [of _ ?b2]) simp
  qed
qed

subsection \<open>C2: truncation to 8 bytes\<close>

text \<open>
  Claim C2, as amended: the confirmation prompt truncates without a warning. In batch
  mode, a line with more than 8 meaningful bytes makes \<^verbatim>\<open>read_password\<close> return 1 with
  the first 8 bytes of the input in \<open>result\<close> and the truncation warning on
  \<^verbatim>\<open>stderr\<close>. In interactive mode, a first entry \<open>p\<close> of more than 8 bytes is cut to
  its first 8 bytes with the warning, and the confirmation \<open>v\<close> is compared by its first
  8 bytes: when they agree \<^verbatim>\<open>ask_password\<close> returns 1 with the first 8 bytes of \<open>p\<close> in
  \<open>result\<close>. A confirmation of more than 8 bytes after a first entry of 6 to 8 bytes is
  also cut to its first 8 bytes, which are compared and stored, but nothing is written to
  \<^verbatim>\<open>stderr\<close>.

  The comparison is of the first 8 bytes and of nothing else, for every first entry \<open>p\<close>
  of at least 6 bytes and every confirmation \<open>v\<close>, whatever their lengths. When the
  first 8 bytes agree, the round is accepted: 1 is returned with the first 8 bytes of
  \<open>p\<close> in \<open>result\<close>, and \<^verbatim>\<open>stderr\<close> has received the warning exactly when \<open>p\<close> has
  more than 8 bytes. When they differ, the round is refused: \<^verbatim>\<open>stderr\<close> receives the
  warning (when \<open>p\<close> has more than 8 bytes) and then \<^verbatim>\<open>Passwords do not match\<close>, and
  the loop starts again on the answers that remain, with the first 8 bytes of \<open>p\<close> in
  \<open>passwd_copy\<close> and those of \<open>v\<close> in the buffer of \<^verbatim>\<open>getpass\<close>. So when the terminal
  holds these two answers only, 1 is returned exactly when the first 8 bytes agree;
  otherwise 0 is returned, \<open>result\<close> is left as it was, and the messages are the
  warning (if any), the mismatch and \<^verbatim>\<open>Can't get password\<close>.
\<close>

theorem password_truncation:
  "(8 < length (meaningful (stdin w)) \<longrightarrow>
        fst (read_password result w) = 1
      \<and> cstr (fst (snd (read_password result w))) = take 8 (stdin w)
      \<and> stderr (snd (snd (snd (read_password result w)))) = stderr w @ [MsgTruncated])
   \<and> (tty w = Some p # Some v # rest \<and> 8 < strlen p \<and> take 8 (cstr v) = take 8 p \<longrightarrow>
        fst (ask_password result w) = Ret 1
      \<and> cstr (fst (snd (ask_password result w))) = take 8 p
      \<and> stderr (snd (snd (snd (ask_password result w)))) = stderr w @ [MsgTruncated])
   \<and> (tty w = Some p # Some v # rest \<and> 6 \<le> strlen p \<and> strlen p \<le> 8
          \<and> 8 < strlen v \<and> take 8 v = cstr p \<longrightarrow>
        fst (ask_password result w) = Ret 1
      \<and> cstr (fst (snd (ask_password result w))) = take 8 v
      \<and> stderr (snd (snd (snd (ask_password result w)))) = stderr w)
   \<and> (tty w = Some p # Some v # rest \<and> 6 \<le> strlen p
          \<and> take 8 (cstr v) = take 8 (cstr p) \<longrightarrow>
        fst (ask_password result w) = Ret 1
      \<and> cstr (fst (snd (ask_password result w))) = take 8 (cstr p)
      \<and> stderr (snd (snd (snd (ask_password result w)))) =
           stderr w @ (if 8 < strlen p then [MsgTruncated] else []))
   \<and> (tty w = Some p # Some v # rest \<and> 6 \<le> strlen p
          \<and> take 8 (cstr v) \<noteq> take 8 (cstr p) \<longrightarrow>
        (\<exists>pc b. ask_password result w =
             ask_password_loop result pc
               (w\<lparr>tty := rest, gp_buf := b,
                  stderr := stderr w @ (if 8 < strlen p then [MsgTruncated] else [])
                              @ [MsgMismatch]\<rparr>)
           \<and> cstr pc = take 8 (cstr p) \<and> cstr b = take 8 (cstr v)))
   \<and> (tty w = [Some p, Some v] \<and> 6 \<le> strlen p \<longrightarrow>
        (fst (ask_password result w) = Ret 1) = (take 8 (cstr v) = take 8 (cstr p))
      \<and> (take 8 (cstr v) \<noteq> take 8 (cstr p) \<longrightarrow>
            fst (ask_password result w) = Ret 0
          \<and> fst (snd (ask_password result w)) = result
          \<and> stderr (snd (snd (snd (ask_password result w)))) =
               stderr w @ (if 8 < strlen p then [MsgTruncated] else [])
                 @ [MsgMismatch, MsgNotTty]))"
proof -
  have A: "fst (read_password result w) = 1
      \<and> cstr (fst (snd (read_password result w))) = take 8 (stdin w)
      \<and> stderr (snd (snd (snd (read_password result w)))) = stderr w @ [MsgTruncated]"
    if h: "8 < length (meaningful (stdin w))"
  proof -
    have ne: "stdin w \<noteq> []" using h by (auto simp: meaningful_def)
    have "take 8 (meaningful (stdin w)) = take 8 (stdin w)"
      using h by (intro meaningful_prefix) simp
    then show ?thesis
      using read_password_line(1-3) [OF ne, of result] h by simp
  qed
  have B: "fst (ask_password result w) = Ret 1
      \<and> cstr (fst (snd (ask_password result w))) = take 8 p
      \<and> stderr (snd (snd (snd (ask_password result w)))) = stderr w @ [MsgTruncated]"
    if h: "tty w = Some p # Some v # rest \<and> 8 < strlen p \<and> take 8 (cstr v) = take 8 p"
  proof -
    have t: "take 8 p = take 8 (cstr p)"
      using h by (intro take_le_strlen) simp
    have "6 \<le> strlen p" using h by simp
    from ask_round_match [OF _ this, of w v rest result "uninit w 9"] h t
    show ?thesis by (simp add: ask_password_def)
  qed
  have C: "fst (ask_password result w) = Ret 1
      \<and> cstr (fst (snd (ask_password result w))) = take 8 v
      \<and> stderr (snd (snd (snd (ask_password result w)))) = stderr w"
    if h: "tty w = Some p # Some v # rest \<and> 6 \<le> strlen p \<and> strlen p \<le> 8
          \<and> 8 < strlen v \<and> take 8 v = cstr p"
  proof -
    have t: "take 8 v = take 8 (cstr v)"
      using h by (intro take_le_strlen) simp
    have s: "take 8 (cstr p) = cstr p"
      using h by (intro cstr_short) simp
    have m: "take 8 (cstr v) = take 8 (cstr p)" using h t s by simp
    have "6 \<le> strlen p" using h by simp
    from ask_round_match [OF _ this m, of w rest result "uninit w 9"] h s
    show ?thesis by (simp add: ask_password_def)
  qed
  have D: "fst (ask_password result w) = Ret 1
      \<and> cstr (fst (snd (ask_password result w))) = take 8 (cstr p)
      \<and> stderr (snd (snd (snd (ask_password result w)))) =
           stderr w @ (if 8 < strlen p then [MsgTruncated] else [])"
    if h: "tty w = Some p # Some v # rest \<and> 6 \<le> strlen p
          \<and> take 8 (cstr v) = take 8 (cstr p)" for rest
  proof -
    from h have t: "tty w = Some p # Some v # rest" and s: "6 \<le> strlen p"
      and m: "take 8 (cstr v) = take 8 (cstr p)" by simp_all
    from ask_round_match [OF t s m, of result "uninit w 9"]
    show ?thesis unfolding ask_password_def by blast
  qed
  have E: "\<exists>pc b. ask_password result w =
             ask_password_loop result pc
               (w\<lparr>tty := rest, gp_buf := b,
                  stderr := stderr w @ (if 8 < strlen p then [MsgTruncated] else [])
                              @ [MsgMismatch]\<rparr>)
           \<and> cstr pc = take 8 (cstr p) \<and> cstr b = take 8 (cstr v)"
    if h: "tty w = Some p # Some v # rest \<and> 6 \<le> strlen p
          \<and> take 8 (cstr v) \<noteq> take 8 (cstr p)" for rest
  proof -
    from h have t: "tty w = Some p # Some v # rest" and s: "6 \<le> strlen p"
      and m: "take 8 (cstr v) \<noteq> take 8 (cstr p)" by simp_all
    show ?thesis
      unfolding ask_password_def by (rule ask_round_mismatch [OF t s m])
  qed
  have F: "(fst (ask_password result w) = Ret 1) = (take 8 (cstr v) = take 8 (cstr p))
      \<and> (take 8 (cstr v) \<noteq> take 8 (cstr p) \<longrightarrow>
            fst (ask_password result w) = Ret 0
          \<and> fst (snd (ask_password result w)) = result
          \<and> stderr (snd (snd (snd (ask_password result w)))) =
               stderr w @ (if 8 < strlen p then [MsgTruncated] else [])
                 @ [MsgMismatch, MsgNotTty])"
    if h: "tty w = [Some p, Some v] \<and> 6 \<le> strlen p"
  proof (cases "take 8 (cstr v) = take 8 (cstr p)")
    case True
    with D [of "[]"] h show ?thesis by simp
  next
    case False
    with E [of "[]"] h obtain pc b where
      e: "ask_password result w =
             ask_password_loop result pc
               (w\<lparr>tty := [], gp_buf := b,
                  stderr := stderr w @ (if 8 < strlen p then [MsgTruncated] else [])
                              @ [MsgMismatch]\<rparr>)"
      by blast
    show ?thesis
      using False unfolding e by (subst (1 2 3 4) ask_not_tty) simp_all
  qed
  from A B C D E F show ?thesis by blast
qed

theorem password_truncation_witness:
  "8 < length (meaningful ''secret1234'')
   \<and> cstr (fst (snd (read_password (replicate 9 NUL) (example_world\<lparr>stdin := ''secret1234''\<rparr>))))
        = ''secret12''
   \<and> stderr (snd (snd (snd (read_password (replicate 9 NUL)
        (example_world\<lparr>stdin := ''secret1234''\<rparr>))))) = [MsgTruncated]
   \<and> 8 < strlen ''secret1234''
   \<and> cstr (fst (snd (ask_password (replicate 9 NUL)
        (world_tty [Some ''secret1234'', Some ''secret12xy''])))) = ''secret12''
   \<and> stderr (snd (snd (snd (ask_password (replicate 9 NUL)
        (world_tty [Some ''secret1234'', Some ''secret12xy'']))))) = [MsgTruncated]
   \<and> cstr (fst (snd (ask_password (replicate 9 NUL)
        (world_tty [Some ''secret12'', Some ''secret12xy''])))) = ''secret12''
   \<and> stderr (snd (snd (snd (ask_password (replicate 9 NUL)
        (world_tty [Some ''secret12'', Some ''secret12xy'']))))) = []
   \<and> fst (ask_password (replicate 9 NUL)
        (world_tty [Some ''secret1234'', Some ''secret13xy''])) = Ret 0
   \<and> fst (snd (ask_password (replicate 9 NUL)
        (world_tty [Some ''secret1234'', Some ''secret13xy'']))) = replicate 9 NUL
   \<and> stderr (snd (snd (snd (ask_password (replicate 9 NUL)
        (world_tty [Some ''secret1234'', Some ''secret13xy'']))))) =
          [MsgTruncated, MsgMismatch, MsgNotTty]
   \<and> cstr (fst (snd (ask_password (replicate 9 NUL)
        (world_tty [Some ''secret'', Some ''secret''])))) = ''secret''
   \<and> stderr (snd (snd (snd (ask_password (replicate 9 NUL)
        (world_tty [Some ''secret'', Some ''secret'']))))) = []
   \<and> (\<exists>pc b. ask_password (replicate 9 NUL)
            (world_tty [Some ''secret1234'', Some ''secret13xy'', Some ''again1'']) =
          ask_password_loop (replicate 9 NUL) pc
            (example_world\<lparr>tty := [Some ''again1''], gp_buf := b,
               stderr := [MsgTruncated, MsgMismatch]\<rparr>)
        \<and> cstr pc = ''secret12'' \<and> cstr b = ''secret13'')"
proof -
  note E = world_tty_def example_world_def meaningful_def strlen_def cstr_def NUL_def NL_def
  have a: "8 < length (meaningful ''secret1234'')
   \<and> cstr (fst (snd (read_password (replicate 9 NUL) (example_world\<lparr>stdin := ''secret1234''\<rparr>))))
        = ''secret12''
   \<and> stderr (snd (snd (snd (read_password (replicate 9 NUL)
        (example_world\<lparr>stdin := ''secret1234''\<rparr>))))) = [MsgTruncated]"
    using password_truncation [where w = "example_world\<lparr>stdin := ''secret1234''\<rparr>"
      and result = "replicate 9 NUL", THEN conjunct1]
    by (simp add: E)
  have b: "8 < strlen ''secret1234''
   \<and> cstr (fst (snd (ask_password (replicate 9 NUL)
        (world_tty [Some ''secret1234'', Some ''secret12xy''])))) = ''secret12''
   \<and> stderr (snd (snd (snd (ask_password (replicate 9 NUL)
        (world_tty [Some ''secret1234'', Some ''secret12xy'']))))) = [MsgTruncated]"
    using password_truncation [where w = "world_tty [Some ''secret1234'', Some ''secret12xy'']"
      and result = "replicate 9 NUL" and p = "''secret1234''" and v = "''secret12xy''"
      and rest = "[]", THEN conjunct2, THEN conjunct1]
    by (simp add: E)
  have c: "cstr (fst (snd (ask_password (replicate 9 NUL)
        (world_tty [Some ''secret12'', Some ''secret12xy''])))) = ''secret12''
   \<and> stderr (snd (snd (snd (ask_password (replicate 9 NUL)
        (world_tty [Some ''secret12'', Some ''secret12xy'']))))) = []"
    using password_truncation [where w = "world_tty [Some ''secret12'', Some ''secret12xy'']"
      and result = "replicate 9 NUL" and p = "''secret12''" and v = "''secret12xy''"
      and rest = "[]", THEN conjunct2, THEN conjunct2, THEN conjunct1]
    by (simp add: E)
  have d: "fst (ask_password (replicate 9 NUL)
        (world_tty [Some ''secret1234'', Some ''secret13xy''])) = Ret 0
   \<and> fst (snd (ask_password (replicate 9 NUL)
        (world_tty [Some ''secret1234'', Some ''secret13xy'']))) = replicate 9 NUL
   \<and> stderr (snd (snd (snd (ask_password (replicate 9 NUL)
        (world_tty [Some ''secret1234'', Some ''secret13xy'']))))) =
          [MsgTruncated, MsgMismatch, MsgNotTty]"
    using password_truncation [where w = "world_tty [Some ''secret1234'', Some ''secret13xy'']"
      and result = "replicate 9 NUL" and p = "''secret1234''" and v = "''secret13xy''",
      THEN conjunct2, THEN conjunct2, THEN conjunct2, THEN conjunct2, THEN conjunct2]
    by (simp add: E)
  have e: "cstr (fst (snd (ask_password (replicate 9 NUL)
        (world_tty [Some ''secret'', Some ''secret''])))) = ''secret''
   \<and> stderr (snd (snd (snd (ask_password (replicate 9 NUL)
        (world_tty [Some ''secret'', Some ''secret'']))))) = []"
    using password_truncation [where w = "world_tty [Some ''secret'', Some ''secret'']"
      and result = "replicate 9 NUL" and p = "''secret''" and v = "''secret''"
      and rest = "[]", THEN conjunct2, THEN conjunct2, THEN conjunct2, THEN conjunct1]
    by (simp add: E)
  have f: "\<exists>pc b. ask_password (replicate 9 NUL)
            (world_tty [Some ''secret1234'', Some ''secret13xy'', Some ''again1'']) =
          ask_password_loop (replicate 9 NUL) pc
            (example_world\<lparr>tty := [Some ''again1''], gp_buf := b,
               stderr := [MsgTruncated, MsgMismatch]\<rparr>)
        \<and> cstr pc = ''secret12'' \<and> cstr b = ''secret13''"
    using password_truncation [where
      w = "world_tty [Some ''secret1234'', Some ''secret13xy'', Some ''again1'']"
      and result = "replicate 9 NUL" and p = "''secret1234''" and v = "''secret13xy''"
      and rest = "[Some ''again1'']",
      THEN conjunct2, THEN conjunct2, THEN conjunct2, THEN conjunct2, THEN conjunct1]
    by (simp add: E)
  from a b c d e f show ?thesis by (simp only: simp_thms)
qed

text \<open>
  The claim as stated fails at the confirmation prompt: the entry \<^verbatim>\<open>abcdefgh\<close>
  confirmed by the 9 bytes \<^verbatim>\<open>abcdefghi\<close> is accepted and stored as \<^verbatim>\<open>abcdefgh\<close>, and
  no truncation warning is emitted.
\<close>

theorem confirmation_truncated_silently_counterexample:
  "8 < strlen ''abcdefghi''
   \<and> fst (ask_password (replicate 9 NUL) (world_tty [Some ''abcdefgh'', Some ''abcdefghi''])) = Ret 1
   \<and> cstr (fst (snd (ask_password (replicate 9 NUL)
        (world_tty [Some ''abcdefgh'', Some ''abcdefghi''])))) = ''abcdefgh''
   \<and> MsgTruncated \<notin> set (stderr (snd (snd (snd (ask_password (replicate 9 NUL)
        (world_tty [Some ''abcdefgh'', Some ''abcdefghi'']))))))"
proof -
  have c: "cstr ''abcdefgh'' = ''abcdefgh''" "cstr ''abcdefghi'' = ''abcdefghi''"
    by (simp_all add: cstr_def NUL_def)
  have t: "tty (world_tty [Some ''abcdefgh'', Some ''abcdefghi''])
      = Some ''abcdefgh'' # Some ''abcdefghi'' # []"
    by (simp add: world_tty_def example_world_def)
  have e: "stderr (world_tty [Some ''abcdefgh'', Some ''abcdefghi'']) = []"
    by (simp add: world_tty_def example_world_def)
  from ask_round_match [OF t, of "replicate 9 NUL"
      "uninit (world_tty [Some ''abcdefgh'', Some ''abcdefghi'']) 9"]
  show ?thesis
    by (simp add: ask_password_def strlen_def c e)
qed

subsection \<open>C1: zeroing on failure\<close>

text \<open>
  Claim C1 fails on the code. When a first entry \<^verbatim>\<open>secret12\<close> is followed by a
  confirmation that differs and the next entry is too short, \<^verbatim>\<open>ask_password\<close>
  returns 0 while its array \<open>passwd_copy\<close> still holds \<^verbatim>\<open>secret12\<close> and the buffer of
  \<^verbatim>\<open>getpass\<close> still holds the bytes typed last. A too short first entry is likewise
  left in the buffer of \<^verbatim>\<open>getpass\<close> when the failure is returned.
\<close>

theorem ask_password_failure_leaves_secret:
  "fst (ask_password (replicate 9 NUL)
          (world_tty [Some ''secret12'', Some ''secret13'', Some ''abc''])) = Ret 0
   \<and> fst (snd (snd (ask_password (replicate 9 NUL)
          (world_tty [Some ''secret12'', Some ''secret13'', Some ''abc''])))) = ''secret12'' @ [NUL]
   \<and> gp_buf (snd (snd (snd (ask_password (replicate 9 NUL)
          (world_tty [Some ''secret12'', Some ''secret13'', Some ''abc''])))))
        = ''abc'' @ [NUL] @ ''et13'' @ [NUL]
   \<and> fst (ask_password (replicate 9 NUL) (world_tty [Some ''abc''])) = Ret 0
   \<and> gp_buf (snd (snd (snd (ask_password (replicate 9 NUL) (world_tty [Some ''abc''])))))
        = ''abc'' @ [NUL]"
proof -
  let ?W = "world_tty [Some ''secret12'', Some ''secret13'', Some ''abc'']"
  have a: "ask_password (replicate 9 NUL) ?W =
      (Ret 0, replicate 9 NUL, ''secret12'' @ [NUL],
       example_world\<lparr>tty := [], gp_buf := ''abc'' @ [NUL] @ ''et13'' @ [NUL],
         stderr := [MsgMismatch, MsgTooShort]\<rparr>)"
    unfolding ask_password_def
    apply (subst ask_password_loop.simps)
    apply (subst ask_password_loop.simps)
    apply (simp add: world_tty_def example_world_def getpass_def strlen_def cstr_def
        strcpy_def memset_def fprintf_def NUL_def Let_def)
    done
  have b: "ask_password (replicate 9 NUL) (world_tty [Some ''abc'']) =
      (Ret 0, replicate 9 NUL, uninit (world_tty [Some ''abc'']) 9,
       example_world\<lparr>tty := [], gp_buf := ''abc'' @ [NUL], stderr := [MsgTooShort]\<rparr>)"
    unfolding ask_password_def
    apply (subst ask_password_loop.simps)
    apply (simp add: world_tty_def example_world_def getpass_def strlen_def cstr_def
        fprintf_def NUL_def Let_def)
    done
  show ?thesis by (simp add: a b)
qed

subsection \<open>Lemmas on the option loop\<close>

lemma parse_stop:
  "char_at a 0 \<noteq> CHR ''-'' \<Longrightarrow> parse_args a0 (a # rest) g l w = Inr (a # rest, g, l)"
  by simp

lemma parse_d:
  assumes "char_at a 0 = CHR ''-''" "char_at a 1 = CHR ''d''"
  shows "parse_args a0 (a # rest) g l w =
     (if a \<noteq> ''-display'' then Inl (usage a0 w)
      else (case rest of [] \<Rightarrow> Inl (usage a0 w)
            | v # rest' \<Rightarrow> parse_args a0 rest' (g\<lparr>displayname := Some v\<rparr>) l w))"
  using assms by simp

lemma parse_c:
  assumes "char_at a 0 = CHR ''-''" "char_at a 1 = CHR ''c''"
  shows "parse_args a0 (a # rest) g l w =
     parse_args a0 rest (g\<lparr>otp := 1, otpClear := 1\<rparr>) (l\<lparr>make_directory := 0\<rparr>) w"
  using assms by simp

lemma parse_o:
  assumes "char_at a 0 = CHR ''-''" "char_at a 1 = CHR ''o''"
  shows "parse_args a0 (a # rest) g l w =
     parse_args a0 rest (g\<lparr>otp := 1\<rparr>) (l\<lparr>make_directory := 0\<rparr>) w"
  using assms by simp

lemma parse_a:
  assumes "char_at a 0 = CHR ''-''" "char_at a 1 = CHR ''a''"
  shows "parse_args a0 (a # rest) g l w =
     (case rest of [] \<Rightarrow> Inl (usage a0 w)
      | v # rest' \<Rightarrow>
          parse_args a0 rest' (g\<lparr>user := Some v, userList := 1, addUser := 1\<rparr>)
            (l\<lparr>make_directory := 0\<rparr>) w)"
  using assms by simp

lemma parse_r:
  assumes "char_at a 0 = CHR ''-''" "char_at a 1 = CHR ''r''"
  shows "parse_args a0 (a # rest) g l w =
     (case rest of [] \<Rightarrow> Inl (usage a0 w)
      | v # rest' \<Rightarrow>
          parse_args a0 rest' (g\<lparr>user := Some v, userList := 1, addUser := 0\<rparr>)
            (l\<lparr>make_directory := 0\<rparr>) w)"
  using assms by simp

lemma parse_f:
  assumes "char_at a 0 = CHR ''-''" "char_at a 1 = CHR ''f''"
  shows "parse_args a0 (a # rest) g l w =
     parse_args a0 rest g
       (l\<lparr>passwdFile := ''-'', read_from_stdin := 1, make_directory := 0,
          check_strictly := 0\<rparr>) w"
  using assms by simp

lemma parse_t:
  assumes "char_at a 0 = CHR ''-''" "char_at a 1 = CHR ''t''"
  shows "parse_args a0 (a # rest) g l w =
     (case getenv_safe ''USER'' 32 w of
        Inl x \<Rightarrow> Inl x
      | Inr u \<Rightarrow>
          parse_args a0 rest g
            (l\<lparr>passwdDir := ''/tmp/'' @ u @ ''-vnc'',
               passwdFile := (''/tmp/'' @ u @ ''-vnc'') @ ''/passwd'',
               read_from_stdin := 0, make_directory := 1, check_strictly := 1\<rparr>) w)"
  using assms by simp

lemma parse_v:
  assumes "char_at a 0 = CHR ''-''" "char_at a 1 = CHR ''v''"
  shows "parse_args a0 (a # rest) g l w = parse_args a0 rest (g\<lparr>alsoView := 1\<rparr>) l w"
  using assms by simp

lemma parse_other:
  assumes "char_at a 0 = CHR ''-''"
    "char_at a 1 \<notin> set ''dcoarftv''"
  shows "parse_args a0 (a # rest) g l w = Inl (usage a0 w)"
  using assms by simp

lemma option_cases:
  obtains (stop) "char_at a 0 \<noteq> CHR ''-''"
  | (d) "char_at a 0 = CHR ''-''" "char_at a 1 = CHR ''d''"
  | (c) "char_at a 0 = CHR ''-''" "char_at a 1 = CHR ''c''"
  | (o) "char_at a 0 = CHR ''-''" "char_at a 1 = CHR ''o''"
  | (a) "char_at a 0 = CHR ''-''" "char_at a 1 = CHR ''a''"
  | (r) "char_at a 0 = CHR ''-''" "char_at a 1 = CHR ''r''"
  | (f) "char_at a 0 = CHR ''-''" "char_at a 1 = CHR ''f''"
  | (t) "char_at a 0 = CHR ''-''" "char_at a 1 = CHR ''t''"
  | (v) "char_at a 0 = CHR ''-''" "char_at a 1 = CHR ''v''"
  | (other) "char_at a 0 = CHR ''-''" "char_at a 1 \<notin> set ''dcoarftv''"
  by auto


lemma parse_args_exit:
  "parse_args a0 args g l w = Inl (oc, w') \<Longrightarrow> oc = Exit 1 \<and> (\<exists>m. w' = fprintf m w)"
proof (induction args arbitrary: g l rule: length_induct)
  case (1 args)
  have IH: "oc = Exit 1 \<and> (\<exists>m. w' = fprintf m w)"
    if "length r < length args" "parse_args a0 r g l w = Inl (oc, w')" for r g l
    using 1(1) that by blast
  show ?case
  proof (cases args)
    case Nil
    with 1(2) show ?thesis by simp
  next
    case (Cons a rest)
    note p = 1(2) [unfolded Cons]
    have IH1: "oc = Exit 1 \<and> (\<exists>m. w' = fprintf m w)"
      if "parse_args a0 rest g l w = Inl (oc, w')" for g l
      using IH [of rest g l] that Cons by simp
    have IH2: "oc = Exit 1 \<and> (\<exists>m. w' = fprintf m w)"
      if "rest = x # r" "parse_args a0 r g l w = Inl (oc, w')" for x r g l
      using IH [of r g l] that Cons by simp
    have U: "oc = Exit 1 \<and> (\<exists>m. w' = fprintf m w)" if "Inl (usage a0 w) = Inl (oc, w')"
      using that by (auto simp: usage_def)
    have arg: "oc = Exit 1 \<and> (\<exists>m. w' = fprintf m w)"
      if "(case rest of [] \<Rightarrow> Inl (usage a0 w)
           | x # r \<Rightarrow> parse_args a0 r (G x) (L x) w) = Inl (oc, w')"
      for G L
    proof (cases rest)
      case Nil
      with that show ?thesis by (intro U) simp
    next
      case (Cons x r)
      with that show ?thesis by (intro IH2 [OF Cons, of "G x" "L x"]) simp
    qed
    show ?thesis
    proof (cases a rule: option_cases)
      case stop
      with p show ?thesis by simp
    next
      case d
      show ?thesis
      proof (cases "a = ''-display''")
        case True
        have "parse_args a0 (a # rest) g l w =
            (case rest of [] \<Rightarrow> Inl (usage a0 w)
             | x # r \<Rightarrow> parse_args a0 r (g\<lparr>displayname := Some x\<rparr>) l w)"
          by (subst parse_d [OF d]) (simp only: True simp_thms if_False)
        with p show ?thesis
          by (intro arg [of "\<lambda>x. g\<lparr>displayname := Some x\<rparr>" "\<lambda>x. l"]) simp
      next
        case False
        with p show ?thesis by (intro U) (simp only: parse_d [OF d] if_True simp_thms)
      qed
    next
      case c
      from p show ?thesis by (intro IH1) (simp only: parse_c [OF c])
    next
      case o
      from p show ?thesis by (intro IH1) (simp only: parse_o [OF o])
    next
      case a
      from p show ?thesis
        by (intro arg [of "\<lambda>x. g\<lparr>user := Some x, userList := 1, addUser := 1\<rparr>"
              "\<lambda>x. l\<lparr>make_directory := 0\<rparr>"])
           (simp only: parse_a [OF a])
    next
      case r
      from p show ?thesis
        by (intro arg [of "\<lambda>x. g\<lparr>user := Some x, userList := 1, addUser := 0\<rparr>"
              "\<lambda>x. l\<lparr>make_directory := 0\<rparr>"])
           (simp only: parse_r [OF r])
    next
      case f
      from p show ?thesis by (intro IH1) (simp only: parse_f [OF f])
    next
      case t
      show ?thesis
      proof (cases "getenv_safe ''USER'' 32 w")
        case (Inl x)
        with p have "x = (oc, w')" by (simp only: parse_t [OF t] sum.case sum.inject)
        with Inl show ?thesis
          by (auto simp: getenv_safe_def split: option.splits if_splits)
      next
        case (Inr u)
        with p show ?thesis by (intro IH1) (simp only: parse_t [OF t] sum.case)
      qed
    next
      case v
      from p show ?thesis by (intro IH1) (simp only: parse_v [OF v])
    next
      case other
      from p show ?thesis by (intro U) (simp only: parse_other [OF other])
    qed
  qed
qed


lemma mode_letters_step:
  "char_at a 0 = CHR ''-'' \<Longrightarrow> char_at a 1 = CHR ''c'' \<Longrightarrow>
     mode_letters (a # rest) = CHR ''c'' # mode_letters rest"
  "char_at a 0 = CHR ''-'' \<Longrightarrow> char_at a 1 = CHR ''o'' \<Longrightarrow>
     mode_letters (a # rest) = CHR ''o'' # mode_letters rest"
  "char_at a 0 = CHR ''-'' \<Longrightarrow> char_at a 1 = CHR ''f'' \<Longrightarrow>
     mode_letters (a # rest) = CHR ''f'' # mode_letters rest"
  "char_at a 0 = CHR ''-'' \<Longrightarrow> char_at a 1 = CHR ''t'' \<Longrightarrow>
     mode_letters (a # rest) = CHR ''t'' # mode_letters rest"
  "char_at a 0 = CHR ''-'' \<Longrightarrow> char_at a 1 = CHR ''v'' \<Longrightarrow>
     mode_letters (a # rest) = CHR ''v'' # mode_letters rest"
  "char_at a 0 = CHR ''-'' \<Longrightarrow> char_at a 1 = CHR ''d'' \<Longrightarrow>
     mode_letters (a # x # r) = CHR ''d'' # mode_letters r"
  "char_at a 0 = CHR ''-'' \<Longrightarrow> char_at a 1 = CHR ''a'' \<Longrightarrow>
     mode_letters (a # x # r) = CHR ''a'' # mode_letters r"
  "char_at a 0 = CHR ''-'' \<Longrightarrow> char_at a 1 = CHR ''r'' \<Longrightarrow>
     mode_letters (a # x # r) = CHR ''r'' # mode_letters r"
  by simp_all

lemma parse_args_modes:
  assumes "parse_args a0 args g l w = Inr (rest', g', l')"
  shows "(otp g \<noteq> 0 \<or> CHR ''o'' \<in> set (mode_letters args)
            \<or> CHR ''c'' \<in> set (mode_letters args) \<longrightarrow> otp g' \<noteq> 0)
       \<and> (userList g \<noteq> 0 \<or> CHR ''a'' \<in> set (mode_letters args)
            \<or> CHR ''r'' \<in> set (mode_letters args) \<longrightarrow> userList g' \<noteq> 0)
       \<and> (read_from_stdin l \<noteq> 0 \<or> take 4 (passwdDir l) = ''/tmp''
            \<or> CHR ''f'' \<in> set (mode_letters args) \<or> CHR ''t'' \<in> set (mode_letters args)
          \<longrightarrow> read_from_stdin l' \<noteq> 0 \<or> take 4 (passwdDir l') = ''/tmp'')"
proof -
  define Q where "Q = (\<lambda>args (g::globals) (l::mlocals).
         (otp g \<noteq> 0 \<or> CHR ''o'' \<in> set (mode_letters args)
            \<or> CHR ''c'' \<in> set (mode_letters args) \<longrightarrow> otp g' \<noteq> 0)
       \<and> (userList g \<noteq> 0 \<or> CHR ''a'' \<in> set (mode_letters args)
            \<or> CHR ''r'' \<in> set (mode_letters args) \<longrightarrow> userList g' \<noteq> 0)
       \<and> (read_from_stdin l \<noteq> 0 \<or> take 4 (passwdDir l) = ''/tmp''
            \<or> CHR ''f'' \<in> set (mode_letters args) \<or> CHR ''t'' \<in> set (mode_letters args)
          \<longrightarrow> read_from_stdin l' \<noteq> 0 \<or> take 4 (passwdDir l') = ''/tmp''))"
  have "parse_args a0 args g l w = Inr (rest', g', l') \<Longrightarrow> Q args g l"
  proof (induction args arbitrary: g l rule: length_induct)
    case (1 args)
    have IH: "Q r g l"
      if "length r < length args" "parse_args a0 r g l w = Inr (rest', g', l')" for r g l
      using 1(1) that by blast
    show ?case
    proof (cases args)
      case Nil
      with 1(2) show ?thesis by (simp add: Q_def)
    next
      case (Cons a rest)
      note p = 1(2) [unfolded Cons]
      have IH1: "Q rest g l"
        if "parse_args a0 rest g l w = Inr (rest', g', l')" for g l
        using IH [of rest g l] that Cons by simp
      have IH2: "Q r g l"
        if "rest = x # r" "parse_args a0 r g l w = Inr (rest', g', l')" for x r g l
        using IH [of r g l] that Cons by simp
      show ?thesis
      proof (cases a rule: option_cases)
        case stop
        have ml: "mode_letters args = []" using stop Cons by simp
        from p stop have "g' = g" "l' = l" by simp_all
        then show ?thesis by (simp add: Q_def ml)
      next
        case d
        from p [unfolded parse_d [OF d]] obtain x r where xr: "rest = x # r"
          and q: "parse_args a0 r (g\<lparr>displayname := Some x\<rparr>) l w = Inr (rest', g', l')"
          by (cases rest) (auto split: if_splits)
        from IH2 [OF xr q] show ?thesis
          by (simp add: Q_def mode_letters_step(6) [OF d, of x r, folded xr Cons])
      next
        case c
        from p have "parse_args a0 rest (g\<lparr>otp := 1, otpClear := 1\<rparr>) (l\<lparr>make_directory := 0\<rparr>) w
            = Inr (rest', g', l')"
          by (simp only: parse_c [OF c])
        from IH1 [OF this] show ?thesis
          by (simp add: Q_def mode_letters_step(1) [OF c, of rest, folded Cons])
      next
        case o
        from p have "parse_args a0 rest (g\<lparr>otp := 1\<rparr>) (l\<lparr>make_directory := 0\<rparr>) w
            = Inr (rest', g', l')"
          by (simp only: parse_o [OF o])
        from IH1 [OF this] show ?thesis
          by (simp add: Q_def mode_letters_step(2) [OF o, of rest, folded Cons])
      next
        case a
        from p [unfolded parse_a [OF a]] obtain x r where xr: "rest = x # r"
          and q: "parse_args a0 r (g\<lparr>user := Some x, userList := 1, addUser := 1\<rparr>)
                    (l\<lparr>make_directory := 0\<rparr>) w = Inr (rest', g', l')"
          by (cases rest) simp_all
        from IH2 [OF xr q] show ?thesis
          by (simp add: Q_def mode_letters_step(7) [OF a, of x r, folded xr Cons])
      next
        case r
        from p [unfolded parse_r [OF r]] obtain x r' where xr: "rest = x # r'"
          and q: "parse_args a0 r' (g\<lparr>user := Some x, userList := 1, addUser := 0\<rparr>)
                    (l\<lparr>make_directory := 0\<rparr>) w = Inr (rest', g', l')"
          by (cases rest) simp_all
        from IH2 [OF xr q] show ?thesis
          by (simp add: Q_def mode_letters_step(8) [OF r, of x r', folded xr Cons])
      next
        case f
        from p have "parse_args a0 rest g
            (l\<lparr>passwdFile := ''-'', read_from_stdin := 1, make_directory := 0,
               check_strictly := 0\<rparr>) w = Inr (rest', g', l')"
          by (simp only: parse_f [OF f])
        from IH1 [OF this] show ?thesis
          by (simp add: Q_def mode_letters_step(3) [OF f, of rest, folded Cons])
      next
        case t
        from p [unfolded parse_t [OF t]] obtain u where
          q: "parse_args a0 rest g
               (l\<lparr>passwdDir := ''/tmp/'' @ u @ ''-vnc'',
                  passwdFile := (''/tmp/'' @ u @ ''-vnc'') @ ''/passwd'',
                  read_from_stdin := 0, make_directory := 1, check_strictly := 1\<rparr>) w
                = Inr (rest', g', l')"
          by (cases "getenv_safe ''USER'' 32 w") simp_all
        from IH1 [OF q] show ?thesis
          by (simp add: Q_def mode_letters_step(4) [OF t, of rest, folded Cons])
      next
        case v
        from p have "parse_args a0 rest (g\<lparr>alsoView := 1\<rparr>) l w = Inr (rest', g', l')"
          by (simp only: parse_v [OF v])
        from IH1 [OF this] show ?thesis
          by (simp add: Q_def mode_letters_step(5) [OF v, of rest, folded Cons])
      next
        case other
        with p show ?thesis by (simp only: parse_other [OF other]) simp
      qed
    qed
  qed
  with assms show ?thesis by (simp add: Q_def)
qed


lemma getenv_safe_exit:
  "getenv_safe n k w = Inl x \<Longrightarrow> fst x = Exit 1 \<and> (\<exists>m. snd x = fprintf m w)"
  by (auto simp: getenv_safe_def split: option.splits if_splits)

lemma otp_command_line_parse:
  "otp_command_line seen args \<Longrightarrow> (seen \<longrightarrow> otp g \<noteq> 0) \<Longrightarrow>
     \<exists>r g' l'. parse_args a0 args g l w = Inr (r, g', l') \<and> otp g' \<noteq> 0
        \<and> read_from_stdin l' = read_from_stdin l \<and> passwdDir l' = passwdDir l"
proof (induction seen args arbitrary: g l rule: otp_command_line.induct)
  case (1 seen)
  then show ?case by simp
next
  case (2 seen a rest)
  consider (oc) "a = ''-o''" | (cc) "a = ''-c''" | (v) "a = ''-v''"
    | (d) "a = ''-display''" | (bad) "a \<noteq> ''-o''" "a \<noteq> ''-c''" "a \<noteq> ''-v''" "a \<noteq> ''-display''"
    by blast
  then show ?case
  proof cases
    case oc
    have c: "char_at a 0 = CHR ''-''" "char_at a 1 = CHR ''o''"
      by (simp_all add: oc char_at_def)
    have "otp_command_line True rest" using "2.prems"(1) oc by simp
    from "2.IH"(1) [OF _ this, of "g\<lparr>otp := 1\<rparr>" "l\<lparr>make_directory := 0\<rparr>"] oc
    have "\<exists>r g' l'. parse_args a0 rest (g\<lparr>otp := 1\<rparr>) (l\<lparr>make_directory := 0\<rparr>) w
        = Inr (r, g', l') \<and> otp g' \<noteq> 0
        \<and> read_from_stdin l' = read_from_stdin l \<and> passwdDir l' = passwdDir l"
      by simp
    then show ?thesis by (simp only: parse_o [OF c])
  next
    case cc
    have c: "char_at a 0 = CHR ''-''" "char_at a 1 = CHR ''c''"
      by (simp_all add: cc char_at_def)
    have "otp_command_line True rest" using "2.prems"(1) cc by simp
    from "2.IH"(1) [OF _ this, of "g\<lparr>otp := 1, otpClear := 1\<rparr>" "l\<lparr>make_directory := 0\<rparr>"] cc
    have "\<exists>r g' l'. parse_args a0 rest (g\<lparr>otp := 1, otpClear := 1\<rparr>)
          (l\<lparr>make_directory := 0\<rparr>) w
        = Inr (r, g', l') \<and> otp g' \<noteq> 0
        \<and> read_from_stdin l' = read_from_stdin l \<and> passwdDir l' = passwdDir l"
      by simp
    then show ?thesis by (simp only: parse_c [OF c])
  next
    case v
    have c: "char_at a 0 = CHR ''-''" "char_at a 1 = CHR ''v''"
      by (simp_all add: v char_at_def)
    have "otp_command_line seen rest" using "2.prems"(1) v by simp
    from "2.IH"(2) [OF _ _ this, of "g\<lparr>alsoView := 1\<rparr>" l] v "2.prems"(2)
    have "\<exists>r g' l'. parse_args a0 rest (g\<lparr>alsoView := 1\<rparr>) l w
        = Inr (r, g', l') \<and> otp g' \<noteq> 0
        \<and> read_from_stdin l' = read_from_stdin l \<and> passwdDir l' = passwdDir l"
      by simp
    then show ?thesis by (simp only: parse_v [OF c])
  next
    case d
    have c: "char_at a 0 = CHR ''-''" "char_at a 1 = CHR ''d''"
      by (simp_all add: d char_at_def)
    from "2.prems"(1) d obtain x r where xr: "rest = x # r" and o: "otp_command_line seen r"
      by (cases rest) simp_all
    from "2.IH"(3) [OF _ _ _ xr o, of "g\<lparr>displayname := Some x\<rparr>" l] d "2.prems"(2)
    have ih: "\<exists>r' g' l'. parse_args a0 r (g\<lparr>displayname := Some x\<rparr>) l w
        = Inr (r', g', l') \<and> otp g' \<noteq> 0
        \<and> read_from_stdin l' = read_from_stdin l \<and> passwdDir l' = passwdDir l"
      by simp
    have "parse_args a0 (a # rest) g l w = parse_args a0 r (g\<lparr>displayname := Some x\<rparr>) l w"
      by (subst parse_d [OF c]) (simp only: d xr simp_thms if_False list.case)
    with ih show ?thesis by (simp only:)
  next
    case bad
    with "2.prems"(1) show ?thesis by simp
  qed
qed

subsection \<open>Lemmas on the batch mode\<close>

lemma read_password_world:
  "snd (snd (snd (read_password result w))) =
     w\<lparr>stdin := stdin (snd (snd (snd (read_password result w)))),
       stderr := stderr (snd (snd (snd (read_password result w))))\<rparr>"
proof (cases "stdin w = []")
  case True
  show ?thesis by (simp add: read_password_eof [OF True])
next
  case False
  then have ne: "fgets_take 255 (stdin w) \<noteq> []" by (simp add: fgets_take_Nil)
  show ?thesis
    using ne
    by (auto simp: read_password_def fgets_def Let_def fprintf_def split: prod.splits if_splits)
qed

lemma main_passwords_batch_eof:
  assumes "read_from_stdin l \<noteq> 0" "stdin w = []"
  shows "main_passwords g l w = Inl (Exit 1, fprintf MsgCouldNotRead w)"
  using assms by (simp add: main_passwords_def read_password_eof Let_def)

lemma main_passwords_batch_one:
  assumes "read_from_stdin l \<noteq> 0" "stdin w \<noteq> []" "length (stdin w) \<le> 255"
    "NL \<notin> set (butlast (stdin w))"
  shows "\<exists>p1 e. main_passwords g l w = Inr (p1, None, w\<lparr>stdin := [], stderr := e\<rparr>)
      \<and> cstr p1 = take 8 (meaningful (stdin w))"
proof -
  obtain rc p1 t1 w1 where r: "read_password (uninit w 9) w = (rc, p1, t1, w1)"
    by (cases "read_password (uninit w 9) w") auto
  have whole: "fgets_take 255 (stdin w) = stdin w"
    using assms(3,4) by (rule fgets_take_whole)
  from read_password_line [OF assms(2), of "uninit w 9"] r whole
  have rc: "rc = 1" and c: "cstr p1 = take 8 (meaningful (stdin w))" and s1: "stdin w1 = []"
    by simp_all
  from read_password_world [of "uninit w 9" w] r s1
  have w1: "w1 = w\<lparr>stdin := [], stderr := stderr w1\<rparr>"
    by simp
  have r2: "read_password (uninit w 9) w1 = (0, uninit w 9, uninit w1 256, w1)"
    by (rule read_password_eof [OF s1])
  have "main_passwords g l w = Inr (p1, None, w1)"
    using assms(1) r rc r2 by (simp add: main_passwords_def Let_def)
  with c w1 show ?thesis by metis
qed


lemma main_store_batch_eof:
  assumes "read_from_stdin l \<noteq> 0" "make_directory l = 0" "stdin w = []"
  shows "main_store [] g l w = (Exit 1, fprintf MsgCouldNotRead w)"
  using assms by (simp add: main_store_def main_passwords_batch_eof)

lemma main_store_batch_one:
  assumes "read_from_stdin l \<noteq> 0" "make_directory l = 0"
    "stdin w \<noteq> []" "length (stdin w) \<le> 255" "NL \<notin> set (butlast (stdin w))"
  shows "fst (main_store [] g l w) = (if store_ok w then Exit 0 else Exit 1)"
    and "stored (snd (main_store [] g l w)) =
           stored w @ [(take 8 (meaningful (stdin w)), None, passwdFile l)]"
    and "stdin (snd (main_store [] g l w)) = []"
proof -
  from main_passwords_batch_one [OF assms(1,3,4,5), of g]
  obtain p1 e where m: "main_passwords g l w = Inr (p1, None, w\<lparr>stdin := [], stderr := e\<rparr>)"
    and c: "cstr p1 = take 8 (meaningful (stdin w))"
    by blast
  show "fst (main_store [] g l w) = (if store_ok w then Exit 0 else Exit 1)"
    using assms(2) m
    by (simp add: main_store_def vncEncryptAndStorePasswd2_def)
  show "stored (snd (main_store [] g l w)) =
           stored w @ [(take 8 (meaningful (stdin w)), None, passwdFile l)]"
    using assms(2) m c
    by (cases "store_ok w") (simp_all add: main_store_def vncEncryptAndStorePasswd2_def fprintf_def)
  show "stdin (snd (main_store [] g l w)) = []"
    using assms(2) m
    by (cases "store_ok w") (simp_all add: main_store_def vncEncryptAndStorePasswd2_def fprintf_def)
qed

lemma main_f:
  assumes "envp w ''HOME'' = Some h" "length h \<le> 240"
  shows "main u [a0, ''-f''] w =
     main_store [] globals0
       ((mlocals_init h)\<lparr>passwdFile := ''-'', read_from_stdin := 1, make_directory := 0,
          check_strictly := 0\<rparr>) w"
  using assms
  by (simp add: main_def getenv_safe_def mlocals_init_def globals0_def char_at_def Let_def)

lemma fgets_take_whole_conv:
  "fgets_take k s = s \<Longrightarrow> length s \<le> k \<and> NL \<notin> set (butlast s)"
  by (induction k s rule: fgets_take.induct) (auto split: if_splits)

lemma length_fgets_take: "length (fgets_take k s) \<le> length s"
  by (induction k s rule: fgets_take.induct) simp_all

lemma stream_ends_after_first_read:
  assumes "stdin w \<noteq> []"
  shows "stdin (snd (snd (snd (read_password result w)))) = []
     \<longleftrightarrow> length (stdin w) \<le> 255 \<and> NL \<notin> set (butlast (stdin w))"
proof -
  let ?c = "fgets_take 255 (stdin w)"
  have d: "stdin (snd (snd (snd (read_password result w)))) = drop (length ?c) (stdin w)"
    by (rule read_password_line(4) [OF assms])
  show ?thesis
  proof
    assume "stdin (snd (snd (snd (read_password result w)))) = []"
    then have "length (stdin w) \<le> length ?c" using d by simp
    then have "take (length ?c) (stdin w) = stdin w" by simp
    then have "?c = stdin w" by (simp add: fgets_take_prefix)
    then show "length (stdin w) \<le> 255 \<and> NL \<notin> set (butlast (stdin w))"
      by (rule fgets_take_whole_conv)
  next
    assume "length (stdin w) \<le> 255 \<and> NL \<notin> set (butlast (stdin w))"
    then have "?c = stdin w" by (intro fgets_take_whole) simp_all
    then show "stdin (snd (snd (snd (read_password result w)))) = []"
      using d by simp
  qed
qed

text \<open>A stream that goes on after the first read: the second \<^verbatim>\<open>read_password\<close> succeeds
  on what is left.\<close>

lemma main_passwords_batch_two:
  assumes "read_from_stdin l \<noteq> 0" "stdin w \<noteq> []"
    "\<not> (length (stdin w) \<le> 255 \<and> NL \<notin> set (butlast (stdin w)))"
  shows "\<exists>p1 p2 w2. main_passwords g l w = Inr (p1, Some p2, w2)
      \<and> cstr p1 = take 8 (meaningful (stdin w))
      \<and> cstr p2 = take 8 (meaningful (drop (length (fgets_take 255 (stdin w))) (stdin w)))
      \<and> stored w2 = stored w \<and> store_ok w2 = store_ok w"
proof -
  obtain rc p1 t1 w1 where r: "read_password (uninit w 9) w = (rc, p1, t1, w1)"
    by (cases "read_password (uninit w 9) w") auto
  from read_password_line [OF assms(2), of "uninit w 9"] r
  have rc: "rc = 1" and c: "cstr p1 = take 8 (meaningful (stdin w))"
    and s1: "stdin w1 = drop (length (fgets_take 255 (stdin w))) (stdin w)"
    by simp_all
  from stream_ends_after_first_read [OF assms(2), of "uninit w 9"] r assms(3)
  have ne: "stdin w1 \<noteq> []" by simp
  from read_password_world [of "uninit w 9" w] r
  have w1: "w1 = w\<lparr>stdin := stdin w1, stderr := stderr w1\<rparr>" by simp
  obtain rc2 p2 t2 w2 where r2: "read_password (uninit w 9) w1 = (rc2, p2, t2, w2)"
    by (cases "read_password (uninit w 9) w1") auto
  from read_password_line [OF ne, of "uninit w 9"] r2
  have rc2: "rc2 = 1" and c2: "cstr p2 = take 8 (meaningful (stdin w1))" by simp_all
  from read_password_world [of "uninit w 9" w1] r2
  have w2: "w2 = w1\<lparr>stdin := stdin w2, stderr := stderr w2\<rparr>" by simp
  have st: "stored w2 = stored w" "store_ok w2 = store_ok w"
    by (subst w2, subst w1, simp)+
  have "main_passwords g l w = Inr (p1, Some p2, w2)"
    using assms(1) r rc r2 rc2 by (simp add: main_passwords_def Let_def)
  with c c2 s1 st show ?thesis by simp
qed

lemma main_store_batch_two:
  assumes "read_from_stdin l \<noteq> 0" "make_directory l = 0" "stdin w \<noteq> []"
    "\<not> (length (stdin w) \<le> 255 \<and> NL \<notin> set (butlast (stdin w)))"
  shows "fst (main_store [] g l w) = (if store_ok w then Exit 0 else Exit 1)"
    and "stored (snd (main_store [] g l w)) =
           stored w @ [(take 8 (meaningful (stdin w)),
              Some (take 8 (meaningful (drop (length (fgets_take 255 (stdin w))) (stdin w)))),
              passwdFile l)]"
proof -
  from main_passwords_batch_two [OF assms(1,3,4), of g]
  obtain p1 p2 w2 where m: "main_passwords g l w = Inr (p1, Some p2, w2)"
    and c: "cstr p1 = take 8 (meaningful (stdin w))"
      "cstr p2 = take 8 (meaningful (drop (length (fgets_take 255 (stdin w))) (stdin w)))"
    and s: "stored w2 = stored w" "store_ok w2 = store_ok w"
    by blast
  show "fst (main_store [] g l w) = (if store_ok w then Exit 0 else Exit 1)"
    using assms(2) m s
    by (simp add: main_store_def vncEncryptAndStorePasswd2_def)
  show "stored (snd (main_store [] g l w)) =
           stored w @ [(take 8 (meaningful (stdin w)),
              Some (take 8 (meaningful (drop (length (fgets_take 255 (stdin w))) (stdin w)))),
              passwdFile l)]"
    using assms(2) m c s
    by (cases "store_ok w") (simp_all add: main_store_def vncEncryptAndStorePasswd2_def fprintf_def)
qed

lemma fgets_take_replicate:
  "c \<noteq> NL \<Longrightarrow> fgets_take k (replicate k c @ s) = replicate k c"
  by (induction k) simp_all

lemma meaningful_replicate_append:
  "c \<noteq> NL \<Longrightarrow> c \<noteq> NUL \<Longrightarrow> meaningful (replicate k c @ s) = replicate k c @ meaningful s"
  by (induction k) (simp_all add: meaningful_def)

subsection \<open>C8: end of the input stream in batch mode\<close>

text \<open>
  In batch mode (\<open>read_from_stdin\<close> set), an input stream that has ended before the
  first password makes the program exit with code 1 after the message
  \<^verbatim>\<open>Could not read password\<close>, with nothing stored. The stream has ended after the
  first \<^verbatim>\<open>read_password\<close> exactly when it holds at most 255 bytes with a newline at
  most as its last byte (\<^verbatim>\<open>fgets\<close> reads up to 255 bytes of a line at a time). Such a
  stream gives a primary password, the first 8 meaningful bytes of the line, and no
  secondary one: \<open>passwd2_ptr\<close> is \<^verbatim>\<open>NULL\<close>. Both cases are shown for the acquisition
  step of \<^verbatim>\<open>main\<close> and for the whole program run as \<^verbatim>\<open>vncpasswd -f\<close>, where the
  password is then handed to the storing routine with the file name \<^verbatim>\<open>-\<close>.
\<close>

lemma batch_end_of_stream:
  "(stdin w \<noteq> [] \<longrightarrow>
      (stdin (snd (snd (snd (read_password result w)))) = [])
        = (length (stdin w) \<le> 255 \<and> NL \<notin> set (butlast (stdin w))))
   \<and> (read_from_stdin l \<noteq> 0 \<and> stdin w = [] \<longrightarrow>
      main_passwords g l w = Inl (Exit 1, fprintf MsgCouldNotRead w))
   \<and> (read_from_stdin l \<noteq> 0 \<and> stdin w \<noteq> [] \<and> length (stdin w) \<le> 255
        \<and> NL \<notin> set (butlast (stdin w)) \<longrightarrow>
      (\<exists>p1 e. main_passwords g l w = Inr (p1, None, w\<lparr>stdin := [], stderr := e\<rparr>)
         \<and> cstr p1 = take 8 (meaningful (stdin w))))
   \<and> (envp w ''HOME'' = Some h \<and> length h \<le> 240 \<and> stdin w = [] \<longrightarrow>
      main u [prog, ''-f''] w = (Exit 1, fprintf MsgCouldNotRead w))
   \<and> (envp w ''HOME'' = Some h \<and> length h \<le> 240 \<and> stdin w \<noteq> []
        \<and> length (stdin w) \<le> 255 \<and> NL \<notin> set (butlast (stdin w)) \<longrightarrow>
      fst (main u [prog, ''-f''] w) = (if store_ok w then Exit 0 else Exit 1)
      \<and> stored (snd (main u [prog, ''-f''] w)) =
          stored w @ [(take 8 (meaningful (stdin w)), None, ''-'')])"
proof -
  let ?l = "(mlocals_init h)\<lparr>passwdFile := ''-'', read_from_stdin := 1, make_directory := 0,
          check_strictly := 0\<rparr>"
  have l: "read_from_stdin ?l \<noteq> 0" "make_directory ?l = 0" "passwdFile ?l = ''-''"
    by simp_all
  have A: "main_passwords g l w = Inl (Exit 1, fprintf MsgCouldNotRead w)"
    if "read_from_stdin l \<noteq> 0 \<and> stdin w = []"
    using that main_passwords_batch_eof [of l w g] by blast
  have B: "\<exists>p1 e. main_passwords g l w = Inr (p1, None, w\<lparr>stdin := [], stderr := e\<rparr>)
         \<and> cstr p1 = take 8 (meaningful (stdin w))"
    if "read_from_stdin l \<noteq> 0 \<and> stdin w \<noteq> [] \<and> length (stdin w) \<le> 255
        \<and> NL \<notin> set (butlast (stdin w))"
    using that main_passwords_batch_one [of l w g] by blast
  have C: "main u [prog, ''-f''] w = (Exit 1, fprintf MsgCouldNotRead w)"
    if h: "envp w ''HOME'' = Some h \<and> length h \<le> 240 \<and> stdin w = []"
  proof -
    have "main u [prog, ''-f''] w = main_store [] globals0 ?l w"
      using h by (intro main_f) simp_all
    also have "\<dots> = (Exit 1, fprintf MsgCouldNotRead w)"
      using h by (intro main_store_batch_eof l) simp
    finally show ?thesis .
  qed
  have D: "fst (main u [prog, ''-f''] w) = (if store_ok w then Exit 0 else Exit 1)
      \<and> stored (snd (main u [prog, ''-f''] w)) =
          stored w @ [(take 8 (meaningful (stdin w)), None, ''-'')]"
    if h: "envp w ''HOME'' = Some h \<and> length h \<le> 240 \<and> stdin w \<noteq> []
        \<and> length (stdin w) \<le> 255 \<and> NL \<notin> set (butlast (stdin w))"
  proof -
    have m: "main u [prog, ''-f''] w = main_store [] globals0 ?l w"
      using h by (intro main_f) simp_all
    from h have s: "stdin w \<noteq> []" "length (stdin w) \<le> 255" "NL \<notin> set (butlast (stdin w))"
      by simp_all
    from main_store_batch_one(1,2) [OF l(1,2) s, of globals0]
    show ?thesis by (simp only: m l(3))
  qed
  have E: "(stdin (snd (snd (snd (read_password result w)))) = [])
        = (length (stdin w) \<le> 255 \<and> NL \<notin> set (butlast (stdin w)))"
    if "stdin w \<noteq> []"
    using that by (rule stream_ends_after_first_read)
  from A B C D E show ?thesis by blast
qed

lemma batch_end_of_stream_witness:
  "main True [''vncpasswd'', ''-f''] example_world
      = (Exit 1, fprintf MsgCouldNotRead example_world)
   \<and> fst (main True [''vncpasswd'', ''-f''] (example_world\<lparr>stdin := ''secret1'' @ [NL]\<rparr>))
      = Exit 0
   \<and> stored (snd (main True [''vncpasswd'', ''-f''] (example_world\<lparr>stdin := ''secret1'' @ [NL]\<rparr>)))
      = [(''secret1'', None, ''-'')]"
  using
    batch_end_of_stream [where w = example_world and h = "''/home/u''" and u = True
      and prog = "''vncpasswd''", THEN conjunct2, THEN conjunct2, THEN conjunct2]
    batch_end_of_stream [where w = "example_world\<lparr>stdin := ''secret1'' @ [NL]\<rparr>"
      and h = "''/home/u''" and u = True and prog = "''vncpasswd''",
      THEN conjunct2, THEN conjunct2, THEN conjunct2]
  by (simp add: example_world_def meaningful_def NL_def NUL_def)

text \<open>
  Claim C8 fails on the code. The stream that holds one line of 255 bytes \<^verbatim>\<open>a\<close> and
  its newline ends after the primary password and before any secondary one. The first
  \<^verbatim>\<open>read_password\<close> takes the 255 bytes, which fill its array, and the second one reads
  the newline that is left and returns 1: \<^verbatim>\<open>vncpasswd -f\<close> exits with code 0 after it
  has handed the storing routine the primary password \<^verbatim>\<open>aaaaaaaa\<close> and an empty
  secondary password instead of \<^verbatim>\<open>NULL\<close>. Likewise a stream of 300 bytes \<^verbatim>\<open>a\<close> with no
  newline, one password ended by the end of the stream, gives the secondary password
  \<^verbatim>\<open>aaaaaaaa\<close>, read from the bytes 256 to 300 of the same line.
\<close>

theorem long_line_becomes_secondary:
  "fst (main True [''vncpasswd'', ''-f'']
          (example_world\<lparr>stdin := replicate 255 CHR ''a'' @ [NL]\<rparr>)) = Exit 0
   \<and> stored (snd (main True [''vncpasswd'', ''-f'']
          (example_world\<lparr>stdin := replicate 255 CHR ''a'' @ [NL]\<rparr>)))
        = [(''aaaaaaaa'', Some [], ''-'')]
   \<and> fst (main True [''vncpasswd'', ''-f'']
          (example_world\<lparr>stdin := replicate 300 CHR ''a''\<rparr>)) = Exit 0
   \<and> stored (snd (main True [''vncpasswd'', ''-f'']
          (example_world\<lparr>stdin := replicate 300 CHR ''a''\<rparr>)))
        = [(''aaaaaaaa'', Some ''aaaaaaaa'', ''-'')]"
proof -
  let ?l = "(mlocals_init ''/home/u'')\<lparr>passwdFile := ''-'', read_from_stdin := 1,
          make_directory := 0, check_strictly := 0\<rparr>"
  let ?A = "example_world\<lparr>stdin := replicate 255 CHR ''a'' @ [NL]\<rparr>"
  let ?B = "example_world\<lparr>stdin := replicate 300 CHR ''a''\<rparr>"
  have l: "read_from_stdin ?l \<noteq> 0" "make_directory ?l = 0" "passwdFile ?l = ''-''"
    by simp_all
  have a: "CHR ''a'' \<noteq> NL" "CHR ''a'' \<noteq> NUL" by (simp_all add: NL_def NUL_def)
  have e: "replicate 8 CHR ''a'' = ''aaaaaaaa''" by (simp add: numeral_eq_Suc)
  have mA: "main True [''vncpasswd'', ''-f''] ?A = main_store [] globals0 ?l ?A"
    by (intro main_f) (simp_all add: example_world_def)
  have mB: "main True [''vncpasswd'', ''-f''] ?B = main_store [] globals0 ?l ?B"
    by (intro main_f) (simp_all add: example_world_def)
  have sA: "stdin ?A = replicate 255 CHR ''a'' @ [NL]" "stored ?A = []" "store_ok ?A"
    by (simp_all add: example_world_def)
  have sB: "stdin ?B = replicate 255 CHR ''a'' @ replicate 45 CHR ''a''" "stored ?B = []"
      "store_ok ?B"
    by (simp_all add: example_world_def replicate_add [symmetric])
  have nA: "stdin ?A \<noteq> []" "\<not> (length (stdin ?A) \<le> 255 \<and> NL \<notin> set (butlast (stdin ?A)))"
    unfolding sA by simp_all
  have nB: "stdin ?B \<noteq> []" "\<not> (length (stdin ?B) \<le> 255 \<and> NL \<notin> set (butlast (stdin ?B)))"
    unfolding sB by simp_all
  have tA: "take 8 (meaningful (stdin ?A)) = ''aaaaaaaa''"
    unfolding sA by (simp add: meaningful_replicate_append a e)
  have tB: "take 8 (meaningful (stdin ?B)) = ''aaaaaaaa''"
    unfolding sB by (simp add: meaningful_replicate_append a e)
  have dA: "take 8 (meaningful (drop (length (fgets_take 255 (stdin ?A))) (stdin ?A))) = []"
    unfolding sA by (simp add: fgets_take_replicate a meaningful_def)
  have dB: "take 8 (meaningful (drop (length (fgets_take 255 (stdin ?B))) (stdin ?B)))
      = ''aaaaaaaa''"
    unfolding sB
    using meaningful_replicate_append [OF a, of 45 "[]"]
    by (simp add: fgets_take_replicate a e)
  from main_store_batch_two [OF l(1,2) nA, of globals0] main_store_batch_two [OF l(1,2) nB, of globals0]
  show ?thesis
    unfolding mA mB tA tB dA dB l(3) sA(2) sB(2) using sA(3) sB(3) by simp
qed

subsection \<open>Lemmas on two command lines\<close>

lemma main_t_f:
  assumes "envp w ''HOME'' = Some h" "length h \<le> 240"
    "envp w ''USER'' = Some usr" "length usr \<le> 32"
  shows "main u [prog, ''-t'', ''-f''] w =
     main_store [] globals0
       \<lparr>read_from_stdin = 1, make_directory = 0, check_strictly = 0,
        passwdDir = ''/tmp/'' @ usr @ ''-vnc'', passwdFile = ''-''\<rparr> w"
  using assms
  by (simp add: main_def getenv_safe_def globals0_def char_at_def Let_def)

lemma main_f_t:
  assumes "envp w ''HOME'' = Some h" "length h \<le> 240"
    "envp w ''USER'' = Some usr" "length usr \<le> 32"
  shows "main u [prog, ''-f'', ''-t''] w =
     main_store [] globals0
       \<lparr>read_from_stdin = 0, make_directory = 1, check_strictly = 1,
        passwdDir = ''/tmp/'' @ usr @ ''-vnc'',
        passwdFile = ''/tmp/'' @ usr @ ''-vnc/passwd''\<rparr> w"
  using assms
  by (simp add: main_def getenv_safe_def globals0_def char_at_def Let_def)

subsection \<open>C4: combined modes\<close>

text \<open>
  Claim C4, as amended: \<^verbatim>\<open>-f\<close> together with \<^verbatim>\<open>-t\<close> is not an error. For every
  command line whose options combine \<^verbatim>\<open>-o\<close> or \<^verbatim>\<open>-c\<close> with one of \<^verbatim>\<open>-f\<close>, \<^verbatim>\<open>-t\<close>,
  \<^verbatim>\<open>-a\<close>, \<^verbatim>\<open>-r\<close>, or combine \<^verbatim>\<open>-a\<close> or \<^verbatim>\<open>-r\<close> with \<^verbatim>\<open>-f\<close> or \<^verbatim>\<open>-t\<close>, the program
  exits with code 1 and the world it leaves differs from the one it found by one message
  on \<^verbatim>\<open>stderr\<close> only: nothing was read, created, written or stored.
\<close>

theorem exclusive_modes:
  "((CHR ''o'' \<in> set (mode_letters args) \<or> CHR ''c'' \<in> set (mode_letters args))
      \<and> (CHR ''f'' \<in> set (mode_letters args) \<or> CHR ''t'' \<in> set (mode_letters args)
         \<or> CHR ''a'' \<in> set (mode_letters args) \<or> CHR ''r'' \<in> set (mode_letters args)))
   \<or> ((CHR ''a'' \<in> set (mode_letters args) \<or> CHR ''r'' \<in> set (mode_letters args))
      \<and> (CHR ''f'' \<in> set (mode_letters args) \<or> CHR ''t'' \<in> set (mode_letters args)))
   \<longrightarrow> (\<exists>m. main u (prog # args) w = (Exit 1, fprintf m w))"
proof
  assume H: "((CHR ''o'' \<in> set (mode_letters args) \<or> CHR ''c'' \<in> set (mode_letters args))
      \<and> (CHR ''f'' \<in> set (mode_letters args) \<or> CHR ''t'' \<in> set (mode_letters args)
         \<or> CHR ''a'' \<in> set (mode_letters args) \<or> CHR ''r'' \<in> set (mode_letters args)))
   \<or> ((CHR ''a'' \<in> set (mode_letters args) \<or> CHR ''r'' \<in> set (mode_letters args))
      \<and> (CHR ''f'' \<in> set (mode_letters args) \<or> CHR ''t'' \<in> set (mode_letters args)))"
  show "\<exists>m. main u (prog # args) w = (Exit 1, fprintf m w)"
  proof (cases "getenv_safe ''HOME'' 240 w")
    case (Inl x)
    from getenv_safe_exit [OF Inl] have "\<exists>m. x = (Exit 1, fprintf m w)"
      by (cases x) auto
    with Inl show ?thesis by (simp add: main_def)
  next
    case (Inr h)
    let ?l = "\<lparr>read_from_stdin = 0, make_directory = 1, check_strictly = 0,
               passwdDir = h @ ''/.vnc'', passwdFile = (h @ ''/.vnc'') @ ''/passwd''\<rparr>"
    show ?thesis
    proof (cases "parse_args prog args globals0 ?l w")
      case (Inl x)
      obtain oc w' where x: "x = (oc, w')" by (cases x)
      from parse_args_exit [OF Inl [unfolded x]] have "\<exists>m. x = (Exit 1, fprintf m w)"
        by (simp add: x)
      with Inl Inr show ?thesis by (simp add: main_def Let_def)
    next
      case (Inr y)
      obtain rest g' l' where y: "y = (rest, g', l')" by (cases y)
      note inv = parse_args_modes [OF Inr [unfolded y]]
      from inv H have o: "otp g' \<noteq> 0 \<or> userList g' \<noteq> 0"
        by blast
      from inv H have ft: "otp g' \<noteq> 0 \<longrightarrow>
          read_from_stdin l' \<noteq> 0 \<or> take 4 (passwdDir l') = ''/tmp'' \<or> userList g' \<noteq> 0"
        by blast
      from inv H have ft2: "otp g' = 0 \<longrightarrow>
          read_from_stdin l' \<noteq> 0 \<or> take 4 (passwdDir l') = ''/tmp''"
        by blast
      have m: "main u (prog # args) w =
          (if otp g' \<noteq> 0 then main_otp u g' l' w
           else if userList g' \<noteq> 0 then main_userlist g' l' w
           else main_store rest g' l' w)"
        using \<open>getenv_safe ''HOME'' 240 w = Inr h\<close> Inr y by (simp add: main_def Let_def)
      show ?thesis
      proof (cases "otp g' \<noteq> 0")
        case True
        with ft show ?thesis by (auto simp: m main_otp_def)
      next
        case False
        with o ft2 show ?thesis by (auto simp: m main_userlist_def)
      qed
    qed
  qed
qed


theorem exclusive_modes_witness:
  "CHR ''o'' \<in> set (mode_letters [''-o'', ''-f''])
   \<and> CHR ''f'' \<in> set (mode_letters [''-o'', ''-f''])
   \<and> (\<exists>m. main True [''vncpasswd'', ''-o'', ''-f''] example_world
            = (Exit 1, fprintf m example_world))
   \<and> CHR ''a'' \<in> set (mode_letters [''-a'', ''bob'', ''-t''])
   \<and> CHR ''t'' \<in> set (mode_letters [''-a'', ''bob'', ''-t''])
   \<and> (\<exists>m. main True [''vncpasswd'', ''-a'', ''bob'', ''-t''] example_world
            = (Exit 1, fprintf m example_world))"
  using
    exclusive_modes [where args = "[''-o'', ''-f'']" and u = True
      and prog = "''vncpasswd''" and w = example_world]
    exclusive_modes [where args = "[''-a'', ''bob'', ''-t'']" and u = True
      and prog = "''vncpasswd''" and w = example_world]
  by (simp add: char_at_def)

text \<open>
  The claim as stated fails for \<^verbatim>\<open>-f\<close> with \<^verbatim>\<open>-t\<close>, where the later option undoes the
  earlier: \<^verbatim>\<open>vncpasswd -t -f\<close> reads the password from \<^verbatim>\<open>stdin\<close>, stores it and exits
  with code 0, and \<^verbatim>\<open>vncpasswd -f -t\<close> creates the directory \<^verbatim>\<open>/tmp/u-vnc\<close>.
\<close>

theorem f_with_t_counterexample:
  "CHR ''t'' \<in> set (mode_letters [''-t'', ''-f''])
   \<and> CHR ''f'' \<in> set (mode_letters [''-t'', ''-f''])
   \<and> fst (main True [''vncpasswd'', ''-t'', ''-f''] (example_world\<lparr>stdin := ''secret1'' @ [NL]\<rparr>))
        = Exit 0
   \<and> stored (snd (main True [''vncpasswd'', ''-t'', ''-f'']
        (example_world\<lparr>stdin := ''secret1'' @ [NL]\<rparr>))) = [(''secret1'', None, ''-'')]
   \<and> stdin (snd (main True [''vncpasswd'', ''-t'', ''-f'']
        (example_world\<lparr>stdin := ''secret1'' @ [NL]\<rparr>))) = []
   \<and> nodes (fs example_world) ''/tmp/u-vnc'' = None
   \<and> nodes (fs (snd (main True [''vncpasswd'', ''-f'', ''-t''] example_world))) ''/tmp/u-vnc''
        = Some \<lparr>st_mode = 0x41C0, st_uid = 1000\<rparr>"
proof -
  let ?W = "example_world\<lparr>stdin := ''secret1'' @ [NL]\<rparr>"
  let ?l = "\<lparr>read_from_stdin = 1, make_directory = 0, check_strictly = 0,
        passwdDir = ''/tmp/'' @ ''u'' @ ''-vnc'', passwdFile = ''-''\<rparr>"
  have m: "main True [''vncpasswd'', ''-t'', ''-f''] ?W = main_store [] globals0 ?l ?W"
    by (rule main_t_f [where h = "''/home/u''"]) (simp_all add: example_world_def)
  have s: "stdin ?W \<noteq> []" "length (stdin ?W) \<le> 255" "NL \<notin> set (butlast (stdin ?W))"
    by (simp_all add: NL_def)
  have l: "read_from_stdin ?l \<noteq> 0" "make_directory ?l = 0" by simp_all
  have so: "store_ok ?W" and st: "stored ?W = []"
    by (simp_all add: example_world_def)
  have mn: "take 8 (meaningful (stdin ?W)) = ''secret1''"
    by (simp add: meaningful_def NL_def NUL_def)
  have pf: "passwdFile ?l = ''-''" by simp
  have a: "fst (main True [''vncpasswd'', ''-t'', ''-f''] ?W) = Exit 0"
    unfolding m using main_store_batch_one(1) [OF l s, of globals0] so by simp
  have b: "stored (snd (main True [''vncpasswd'', ''-t'', ''-f''] ?W)) = [(''secret1'', None, ''-'')]"
    unfolding m main_store_batch_one(2) [OF l s, of globals0] st mn pf by simp
  have c: "stdin (snd (main True [''vncpasswd'', ''-t'', ''-f''] ?W)) = []"
    unfolding m by (rule main_store_batch_one(3) [OF l s])
  let ?k = "\<lparr>read_from_stdin = 0, make_directory = 1, check_strictly = 1,
        passwdDir = ''/tmp/'' @ ''u'' @ ''-vnc'',
        passwdFile = ''/tmp/'' @ ''u'' @ ''-vnc/passwd''\<rparr>"
  have n: "main True [''vncpasswd'', ''-f'', ''-t''] example_world
      = main_store [] globals0 ?k example_world"
    by (rule main_f_t [where h = "''/home/u''"]) (simp_all add: example_world_def)
  have d: "nodes (fs (snd (main True [''vncpasswd'', ''-f'', ''-t''] example_world))) ''/tmp/u-vnc''
        = Some \<lparr>st_mode = 0x41C0, st_uid = 1000\<rparr>"
    unfolding n
    by (simp add: main_store_def mkdir_and_check_def lstat_def mkdir_def fprintf_def getuid_def
        main_passwords_def ask_password_def ask_not_tty example_world_def Let_def
        S_ISDIR_def S_IFMT_def S_IFDIR_def S_IRWXU_def S_IRWXG_def S_IRWXO_def)
  have e: "nodes (fs example_world) ''/tmp/u-vnc'' = None"
    by (simp add: example_world_def)
  from a b c d e show ?thesis by (simp add: char_at_def)
qed

subsection \<open>C10: the OTP mode under a home directory in \<^verbatim>\<open>/tmp\<close>\<close>

text \<open>
  Claim C10, as amended: the home directory is at most 240 bytes long. For every
  environment whose \<^verbatim>\<open>HOME\<close> begins with \<^verbatim>\<open>/tmp\<close> and has at most 240 bytes, and every
  command line of the OTP mode made of \<^verbatim>\<open>-o\<close>, \<^verbatim>\<open>-c\<close>, \<^verbatim>\<open>-v\<close> and \<^verbatim>\<open>-display D\<close> (so
  without \<^verbatim>\<open>-t\<close>), the program exits with code 1 after the message
  \<^verbatim>\<open>Error: -t is incompatible with -o\<close> and nothing else: the check of line 291 looks at
  the directory path, not at whether \<^verbatim>\<open>-t\<close> was given, and no OTP is issued.
\<close>

theorem otp_refused_under_tmp_home:
  "envp w ''HOME'' = Some h \<and> length h \<le> 240 \<and> take 4 h = ''/tmp''
     \<and> otp_command_line False args
   \<longrightarrow> main u (prog # args) w = (Exit 1, fprintf MsgTIncompatO w)"
proof
  assume H: "envp w ''HOME'' = Some h \<and> length h \<le> 240 \<and> take 4 h = ''/tmp''
     \<and> otp_command_line False args"
  let ?l = "\<lparr>read_from_stdin = 0, make_directory = 1, check_strictly = 0,
             passwdDir = h @ ''/.vnc'', passwdFile = (h @ ''/.vnc'') @ ''/passwd''\<rparr>"
  have e: "getenv_safe ''HOME'' 240 w = Inr h"
    using H by (simp add: getenv_safe_def)
  from H have "otp_command_line False args" by simp
  from otp_command_line_parse [OF this, of globals0 prog ?l w]
  obtain r g' l' where p: "parse_args prog args globals0 ?l w = Inr (r, g', l')"
    and o: "otp g' \<noteq> 0" and f: "read_from_stdin l' = 0" and d: "passwdDir l' = h @ ''/.vnc''"
    by auto
  have "4 \<le> length h"
  proof (rule ccontr)
    assume "\<not> 4 \<le> length h"
    then have "length (take 4 h) < 4" by simp
    with H show False by simp
  qed
  then have t: "take 4 (h @ ''/.vnc'') = ''/tmp''" using H by simp
  show "main u (prog # args) w = (Exit 1, fprintf MsgTIncompatO w)"
    using e p o f d t by (simp add: main_def Let_def main_otp_def)
qed


theorem otp_refused_under_tmp_home_witness:
  "take 4 ''/tmp/home'' = ''/tmp'' \<and> otp_command_line False [''-o'']
   \<and> main True [''vncpasswd'', ''-o''] (world_home ''/tmp/home'')
        = (Exit 1, fprintf MsgTIncompatO (world_home ''/tmp/home''))
   \<and> otp_command_line False [''-c'', ''-display'', '':1'']
   \<and> main False [''vncpasswd'', ''-c'', ''-display'', '':1''] (world_home ''/tmp/home'')
        = (Exit 1, fprintf MsgTIncompatO (world_home ''/tmp/home''))"
  using
    otp_refused_under_tmp_home [where w = "world_home ''/tmp/home''" and h = "''/tmp/home''"
      and args = "[''-o'']" and u = True and prog = "''vncpasswd''"]
    otp_refused_under_tmp_home [where w = "world_home ''/tmp/home''" and h = "''/tmp/home''"
      and args = "[''-c'', ''-display'', '':1'']" and u = False and prog = "''vncpasswd''"]
  by (simp add: world_home_def example_world_def)

text \<open>
  The claim as stated fails for a \<^verbatim>\<open>HOME\<close> of more than 240 bytes that begins with
  \<^verbatim>\<open>/tmp\<close>: \<^verbatim>\<open>getenv_safe\<close> ends the program first, with another message.
\<close>

theorem long_tmp_home_counterexample:
  "take 4 (''/tmp/'' @ replicate 240 (CHR ''a'')) = ''/tmp''
   \<and> otp_command_line False [''-o'']
   \<and> main True [''vncpasswd'', ''-o''] (world_home (''/tmp/'' @ replicate 240 (CHR ''a'')))
        = (Exit 1, fprintf (MsgEnvTooLong ''HOME'')
             (world_home (''/tmp/'' @ replicate 240 (CHR ''a''))))
   \<and> MsgEnvTooLong ''HOME'' \<noteq> MsgTIncompatO"
  by (simp add: main_def getenv_safe_def world_home_def example_world_def)

subsection \<open>Lemmas on the view-only question\<close>

lemma strchr_Yy:
  "strchr (''Yy'' @ [NUL]) c \<noteq> None \<longleftrightarrow> c = CHR ''Y'' \<or> c = CHR ''y'' \<or> c = NUL"
  by (auto simp: strchr_def strlen_def cstr_def NUL_def Let_def)

lemma ask_password_match:
  assumes "tty w = Some p # Some v # rest" "6 \<le> strlen p"
    "take 8 (cstr v) = take 8 (cstr p)"
  obtains P T w' where "ask_password result w = (Ret 1, P, T, w')"
    and "cstr P = take 8 (cstr p)" and "tty w' = rest" and "stdin w' = stdin w"
proof -
  obtain rc P T w' where a: "ask_password result w = (rc, P, T, w')"
    by (cases "ask_password result w") auto
  from ask_round_match [OF assms, of result "uninit w 9"] a
  have "rc = Ret 1" "cstr P = take 8 (cstr p)" "tty w' = rest" "stdin w' = stdin w"
    by (simp_all add: ask_password_def)
  with a that show ?thesis by blast
qed

lemma main_passwords_view_question:
  assumes "read_from_stdin l = 0" "alsoView g = 0"
    "tty w = Some p # Some v # Some p2 # Some v2 # rest"
    "6 \<le> strlen p" "take 8 (cstr v) = take 8 (cstr p)"
    "6 \<le> strlen p2" "take 8 (cstr v2) = take 8 (cstr p2)"
    "stdin w = c # s"
  shows "strchr (''Yy'' @ [NUL]) c \<noteq> None \<Longrightarrow>
           \<exists>P1 P2 w'. main_passwords g l w = Inr (P1, Some P2, w')
              \<and> cstr P1 = take 8 (cstr p) \<and> cstr P2 = take 8 (cstr p2) \<and> tty w' = rest"
    and "strchr (''Yy'' @ [NUL]) c = None \<Longrightarrow>
           \<exists>P1 w'. main_passwords g l w = Inr (P1, None, w')
              \<and> cstr P1 = take 8 (cstr p) \<and> tty w' = Some p2 # Some v2 # rest"
proof -
  obtain P1 T1 w1 where a1: "ask_password (uninit w 9) w = (Ret 1, P1, T1, w1)"
    and c1: "cstr P1 = take 8 (cstr p)" and t1: "tty w1 = Some p2 # Some v2 # rest"
    and s1: "stdin w1 = c # s"
    using ask_password_match [OF assms(3,4,5), of "uninit w 9"] assms(8) by metis
  let ?w2 = "(fprintf MsgAskViewOnly w1)\<lparr>stdin := s\<rparr>"
  have f: "fgets (uninit w 2) 2 (fprintf MsgAskViewOnly w1) =
      (Some ([c] @ [NUL] @ drop 2 (uninit w 2)), ?w2)"
    using s1 by (simp add: fgets_def fprintf_def Let_def)
  have y: "([c] @ [NUL] @ drop 2 (uninit w 2)) ! 0 = c" by simp
  have t2: "tty ?w2 = Some p2 # Some v2 # rest" using t1 by (simp add: fprintf_def)
  show "\<exists>P1 P2 w'. main_passwords g l w = Inr (P1, Some P2, w')
              \<and> cstr P1 = take 8 (cstr p) \<and> cstr P2 = take 8 (cstr p2) \<and> tty w' = rest"
    if yes: "strchr (''Yy'' @ [NUL]) c \<noteq> None"
  proof -
    obtain P2 T2 w3 where a2: "ask_password (uninit w 9) ?w2 = (Ret 1, P2, T2, w3)"
      and c2: "cstr P2 = take 8 (cstr p2)" and t3: "tty w3 = rest"
      using ask_password_match [OF t2 assms(6,7), of "uninit w 9"] by metis
    have "main_passwords g l w = Inr (P1, Some P2, w3)"
      using assms(1,2) yes
      by (simp add: main_passwords_def Let_def a1 f a2)
    with c1 c2 t3 show ?thesis by blast
  qed
  show "\<exists>P1 w'. main_passwords g l w = Inr (P1, None, w')
              \<and> cstr P1 = take 8 (cstr p) \<and> tty w' = Some p2 # Some v2 # rest"
    if no: "strchr (''Yy'' @ [NUL]) c = None"
  proof -
    have "main_passwords g l w = Inr (P1, None, ?w2)"
      using assms(1,2) no
      by (simp add: main_passwords_def Let_def a1 f)
    with c1 t2 show ?thesis by blast
  qed
qed

subsection \<open>C9: the answer to the view-only question\<close>

text \<open>
  Claim C9 fails on the code at one byte. \<^verbatim>\<open>strchr("Yy", yesno[0])\<close> also finds the
  terminator of \<^verbatim>\<open>"Yy"\<close>: when the answer read from \<^verbatim>\<open>stdin\<close> is a zero byte, which
  is neither \<^verbatim>\<open>y\<close> nor \<^verbatim>\<open>Y\<close>, the program takes it as affirmative, asks for the
  view-only password and hands both passwords on.
\<close>

theorem zero_byte_answer_is_affirmative:
  "strchr (''Yy'' @ [NUL]) NUL \<noteq> None
   \<and> NUL \<noteq> CHR ''y'' \<and> NUL \<noteq> CHR ''Y''
   \<and> (\<exists>P1 P2 w'.
        main_passwords globals0 mlocals_home
          ((world_tty [Some ''secret12'', Some ''secret12'', Some ''viewonly'', Some ''viewonly''])
             \<lparr>stdin := [NUL]\<rparr>) = Inr (P1, Some P2, w')
        \<and> cstr P1 = ''secret12'' \<and> cstr P2 = ''viewonly'' \<and> tty w' = [])"
proof -
  let ?W = "(world_tty [Some ''secret12'', Some ''secret12'', Some ''viewonly'', Some ''viewonly''])
             \<lparr>stdin := [NUL]\<rparr>"
  have y: "strchr (''Yy'' @ [NUL]) NUL \<noteq> None" using strchr_Yy [of NUL] by blast
  have c: "cstr ''secret12'' = ''secret12''" "cstr ''viewonly'' = ''viewonly''"
    by (simp_all add: cstr_def NUL_def)
  have t: "tty ?W = Some ''secret12'' # Some ''secret12'' # Some ''viewonly'' # Some ''viewonly'' # []"
    by (simp add: world_tty_def example_world_def)
  have s: "stdin ?W = NUL # []" by simp
  have l: "read_from_stdin mlocals_home = 0" "alsoView globals0 = 0"
    by (simp_all add: mlocals_home_def globals0_def)
  have n: "6 \<le> strlen ''secret12''" "6 \<le> strlen ''viewonly''"
    by (simp_all add: strlen_def c)
  from main_passwords_view_question(1) [OF l t n(1) _ n(2) _ s y]
  have "\<exists>P1 P2 w'. main_passwords globals0 mlocals_home ?W = Inr (P1, Some P2, w')
        \<and> cstr P1 = ''secret12'' \<and> cstr P2 = ''viewonly'' \<and> tty w' = []"
    by (simp add: c)
  with y show ?thesis by (simp add: NUL_def)
qed

end
